theory Spec2Isabelle
  imports Complex_Main "HOL-Library.Word" "HOL-Library.Signed_Division" "HOL-Library.Log_Nat"
    "HOL-Library.Monad_Syntax"
begin

section \<open>Engine configuration: the shared globals and their writers\<close>

text \<open>
  The firmware keeps the active mode and the ring brightness in two global
  \<^verbatim>\<open>volatile int\<close> variables, \<^verbatim>\<open>currentMode\<close> (initially 0) and
  \<^verbatim>\<open>ringBrightness\<close> (initially 50).  \<^verbatim>\<open>FastLED.setBrightness\<close> keeps a
  copy of the brightness as an 8-bit value inside the LED driver.  The C \<^verbatim>\<open>int\<close>
  values are modelled as \<^typ>\<open>int\<close>: every value the writers below compute from an
  in-range configuration lies between -10 and 265, far away from the 32-bit limits.
\<close>

record config =
  currentMode :: int
  ringBrightness :: int
  fastledBrightness :: "8 word"

definition numModes :: int where
  "numModes = 27"

text \<open>The globals as initialised at program start, after \<^verbatim>\<open>setup()\<close> has run.\<close>

definition init_config :: config where
  "init_config = \<lparr> currentMode = 0, ringBrightness = 50, fastledBrightness = 50 \<rparr>"

subsection \<open>The web handler \<^verbatim>\<open>handleSet\<close>\<close>

text \<open>
  A request carries two optional arguments.  \<open>None\<close> stands for
  \<^verbatim>\<open>server.hasArg(...)\<close> being false, \<open>Some v\<close> for the argument being
  present with \<^verbatim>\<open>server.arg(...).toInt()\<close> returning \<open>v\<close>.
\<close>

record request =
  mode_arg :: "int option"
  brightness_arg :: "int option"

record response =
  status :: nat
  location :: string

definition handleSet :: "request \<Rightarrow> config \<Rightarrow> config \<times> response" where
  "handleSet rq c =
    (let c1 = (case mode_arg rq of
                 None \<Rightarrow> c
               | Some modeVal \<Rightarrow>
                   if modeVal \<ge> 0 \<and> modeVal < numModes
                   then c\<lparr>currentMode := modeVal\<rparr> else c);
         c2 = (case brightness_arg rq of
                 None \<Rightarrow> c1
               | Some brightVal \<Rightarrow>
                   if brightVal \<ge> 0 \<and> brightVal \<le> 255
                   then c1\<lparr>ringBrightness := brightVal,
                           fastledBrightness := word_of_int brightVal\<rparr>
                   else c1)
     in (c2, \<lparr> status = 302, location = ''/'' \<rparr>))"

subsection \<open>The button scanner \<^verbatim>\<open>buttonTask\<close>\<close>

datatype level = LOW | HIGH

record pins =
  pinModeInc :: level
  pinModeDec :: level
  pinBrightInc :: level
  pinBrightDec :: level

text \<open>The four \<^verbatim>\<open>last...State\<close> locals, all \<^verbatim>\<open>HIGH\<close> when the task starts.\<close>

definition init_last :: pins where
  "init_last = \<lparr> pinModeInc = HIGH, pinModeDec = HIGH,
                 pinBrightInc = HIGH, pinBrightDec = HIGH \<rparr>"

text \<open>The bodies of the four \<^verbatim>\<open>if\<close> statements; C's \<^verbatim>\<open>%\<close> is \<open>smod\<close>.\<close>

definition mode_increment :: "config \<Rightarrow> config" where
  "mode_increment c = c\<lparr>currentMode := (currentMode c + 1) smod numModes\<rparr>"

definition mode_decrement :: "config \<Rightarrow> config" where
  "mode_decrement c =
    (let c1 = c\<lparr>currentMode := currentMode c - 1\<rparr>
     in if currentMode c1 < 0 then c1\<lparr>currentMode := numModes - 1\<rparr> else c1)"

definition brightness_increment :: "config \<Rightarrow> config" where
  "brightness_increment c =
    (let c1 = c\<lparr>ringBrightness := ringBrightness c + 10\<rparr>;
         c2 = (if ringBrightness c1 > 255 then c1\<lparr>ringBrightness := 255\<rparr> else c1)
     in c2\<lparr>fastledBrightness := word_of_int (ringBrightness c2)\<rparr>)"

definition brightness_decrement :: "config \<Rightarrow> config" where
  "brightness_decrement c =
    (let c1 = c\<lparr>ringBrightness := ringBrightness c - 10\<rparr>;
         c2 = (if ringBrightness c1 < 0 then c1\<lparr>ringBrightness := 0\<rparr> else c1)
     in c2\<lparr>fastledBrightness := word_of_int (ringBrightness c2)\<rparr>)"

text \<open>A press is a falling edge: the pin reads \<^verbatim>\<open>LOW\<close> and read \<^verbatim>\<open>HIGH\<close> last time.\<close>

definition pressed :: "level \<Rightarrow> level \<Rightarrow> bool" where
  "pressed now prev = (now = LOW \<and> prev = HIGH)"

text \<open>
  One iteration of the \<^verbatim>\<open>while (1)\<close> loop of \<^verbatim>\<open>buttonTask\<close>: the four pins
  are read, the four tests run in the order of the source, and the readings
  become the new \<^verbatim>\<open>last...State\<close> values.
\<close>

definition buttonTask_iter :: "pins \<Rightarrow> pins \<times> config \<Rightarrow> pins \<times> config" where
  "buttonTask_iter now lc =
    (let prev = fst lc; c = snd lc;
         c1 = (if pressed (pinModeInc now) (pinModeInc prev) then mode_increment c else c);
         c2 = (if pressed (pinModeDec now) (pinModeDec prev) then mode_decrement c1 else c1);
         c3 = (if pressed (pinBrightInc now) (pinBrightInc prev)
               then brightness_increment c2 else c2);
         c4 = (if pressed (pinBrightDec now) (pinBrightDec prev)
               then brightness_decrement c3 else c3)
     in (now, c4))"

subsection \<open>The two writers, statement by statement\<close>



















section \<open>The floating-point arithmetic of the hue distribution\<close>

text \<open>
  \<^verbatim>\<open>fill_ring_with_exact_rainbow\<close> computes in C \<^verbatim>\<open>float\<close> (IEEE 754
  binary32) with two intermediate results in \<^verbatim>\<open>double\<close> (binary64).  A
  floating-point value is modelled by the rational number it denotes, and each
  operation by the exact rational result followed by rounding to the nearest
  value with a \<open>p\<close>-bit significand, ties to the even significand (\<open>p = 24\<close>
  for \<^verbatim>\<open>float\<close>, \<open>p = 53\<close> for \<^verbatim>\<open>double\<close>).  The exponent range is not
  modelled: every value the function computes for a ring of 1 to 255 pixels is
  zero or a multiple of \<open>2\<^sup>-\<^sup>2\<^sup>3\<close> of magnitude below \<open>2\<^sup>1\<^sup>6\<close>, far inside
  the range of normal numbers.
\<close>

definition round_half_even :: "rat \<Rightarrow> int" where
  "round_half_even r =
    (let f = \<lfloor>r\<rfloor>; d = r - of_int f
     in if d < 1 / 2 then f else if 1 / 2 < d then f + 1 else if even f then f else f + 1)"

text \<open>The binary exponent of a positive rational: \<open>2\<^sup>e \<le> x < 2\<^sup>e\<^sup>+\<^sup>1\<close>.\<close>

definition ilog2 :: "rat \<Rightarrow> int" where
  "ilog2 x = (if 1 \<le> x then bitlen \<lfloor>x\<rfloor> - 1 else - bitlen (\<lceil>1 / x\<rceil> - 1))"

definition fp_round :: "nat \<Rightarrow> rat \<Rightarrow> rat" where
  "fp_round p x =
    (if x = 0 then 0
     else let e = ilog2 \<bar>x\<bar>; q = 2 powi (e - (int p - 1))
          in of_int (round_half_even (x / q)) * q)"

definition f32 :: "rat \<Rightarrow> rat" where
  "f32 = fp_round 24"

definition f64 :: "rat \<Rightarrow> rat" where
  "f64 = fp_round 53"

text \<open>
  The cast \<^verbatim>\<open>(uint8_t)hue\<close>.  The value is truncated to an integer and, as the
  compilers for the target do (conversion to a 32-bit integer, then the low
  byte), reduced modulo 256; the C++ standard itself leaves the conversion of a
  value above 255 undefined.
\<close>

definition u8_of_float :: "rat \<Rightarrow> 8 word" where
  "u8_of_float x = word_of_int \<lfloor>x\<rfloor>"

section \<open>Pixels, the frame buffer and the FastLED library\<close>

datatype crgb = CRGB "8 word" "8 word" "8 word"

datatype chsv = CHSV "8 word" "8 word" "8 word"

definition Black :: crgb where "Black = CRGB 0 0 0"
definition White :: crgb where "White = CRGB 255 255 255"
definition Blue :: crgb where "Blue = CRGB 0 0 255"
definition Red :: crgb where "Red = CRGB 255 0 0"

definition NUM_LEDS :: int where "NUM_LEDS = 96"
definition RING_LEDS :: int where "RING_LEDS = 48"

text \<open>
  The pure functions of the FastLED library that the firmware calls and that
  are not part of the repository are parameters of the model: the conversion
  that assigning a \<^verbatim>\<open>CHSV\<close> to a \<^verbatim>\<open>CRGB\<close> performs, the per-pixel scaling
  behind \<^verbatim>\<open>fadeToBlackBy\<close>, \<^verbatim>\<open>sin8\<close> and \<^verbatim>\<open>inoise8\<close>.
\<close>

record fastled =
  hsv2rgb :: "chsv \<Rightarrow> crgb"
  nscale8 :: "8 word \<Rightarrow> crgb \<Rightarrow> crgb"
  sin8 :: "8 word \<Rightarrow> 8 word"
  inoise8 :: "16 word \<Rightarrow> 8 word"

text \<open>
  The library calls whose result changes from call to call (random numbers, and
  the beat generators, which read the clock) are inputs of one loop iteration.
  The first argument names the call within the iteration (call site, plus the
  loop index where the call is inside a loop); the others are the arguments of
  the call.
\<close>

record calls =
  lib_random :: "nat \<Rightarrow> int \<Rightarrow> int"
  lib_random8 :: "nat \<Rightarrow> 8 word"
  lib_random8_range :: "nat \<Rightarrow> 8 word \<Rightarrow> 8 word \<Rightarrow> 8 word"
  lib_beatsin8 :: "nat \<Rightarrow> 16 word \<Rightarrow> 8 word \<Rightarrow> 8 word \<Rightarrow> 8 word"
  lib_beatsin16 :: "nat \<Rightarrow> 16 word \<Rightarrow> 16 word \<Rightarrow> 16 word \<Rightarrow> 32 word \<Rightarrow> 16 word \<Rightarrow> 16 word"

text \<open>
  What the library documents about these results: \<^verbatim>\<open>random(n)\<close> lies in
  \<open>[0, n)\<close>, and \<^verbatim>\<open>beatsin8\<close> and \<^verbatim>\<open>beatsin16\<close> stay between their
  \<^verbatim>\<open>lowest\<close> and \<^verbatim>\<open>highest\<close> arguments.
\<close>

definition calls_ok :: "calls \<Rightarrow> bool" where
  "calls_ok E =
    ((\<forall>k n. 0 < n \<longrightarrow> 0 \<le> lib_random E k n \<and> lib_random E k n < n)
     \<and> (\<forall>k bpm lo hi. lo \<le> hi \<longrightarrow>
           lo \<le> lib_beatsin8 E k bpm lo hi \<and> lib_beatsin8 E k bpm lo hi \<le> hi)
     \<and> (\<forall>k bpm lo hi tb ph. lo \<le> hi \<longrightarrow>
           lo \<le> lib_beatsin16 E k bpm lo hi tb ph \<and> lib_beatsin16 E k bpm lo hi tb ph \<le> hi))"

text \<open>
  An access to \<^verbatim>\<open>leds[i]\<close> outside the array is the one failure of the model:
  the result \<open>None\<close>.
\<close>

definition wr :: "int \<Rightarrow> crgb \<Rightarrow> crgb list \<Rightarrow> crgb list option" where
  "wr i c l = (if 0 \<le> i \<and> i < int (length l) then Some (l[nat i := c]) else None)"

definition rd :: "int \<Rightarrow> crgb list \<Rightarrow> crgb option" where
  "rd i l = (if 0 \<le> i \<and> i < int (length l) then Some (l ! nat i) else None)"

text \<open>The loop \<^verbatim>\<open>for (i = lo; i < hi; i++) body\<close>.\<close>

function for_range :: "int \<Rightarrow> int \<Rightarrow> (int \<Rightarrow> 's \<Rightarrow> 's option) \<Rightarrow> 's \<Rightarrow> 's option" where
  "for_range lo hi body s =
    (if lo < hi then (case body lo s of None \<Rightarrow> None | Some s' \<Rightarrow> for_range (lo + 1) hi body s')
     else Some s)"
  by pat_completeness auto
termination
  by (relation "measure (\<lambda>(lo, hi, body, s). nat (hi - lo))") auto

declare for_range.simps [simp del]

text \<open>\<^verbatim>\<open>fill_solid(leds + start, n, c)\<close>.\<close>

definition fill_solid :: "int \<Rightarrow> int \<Rightarrow> crgb \<Rightarrow> crgb list \<Rightarrow> crgb list option" where
  "fill_solid start n c l = for_range 0 n (\<lambda>i. wr (start + i) c) l"

text \<open>\<^verbatim>\<open>fadeToBlackBy(leds, n, fadeBy)\<close> scales every pixel by \<open>255 - fadeBy\<close>.\<close>

definition fadeToBlackBy :: "fastled \<Rightarrow> int \<Rightarrow> 8 word \<Rightarrow> crgb list \<Rightarrow> crgb list option" where
  "fadeToBlackBy L n fadeBy l =
    for_range 0 n (\<lambda>i l. do { p \<leftarrow> rd i l; wr i (nscale8 L (255 - fadeBy) p) l }) l"

text \<open>\<^verbatim>\<open>leds[i] += c\<close> adds channel by channel, saturating at 255.\<close>

definition qadd8 :: "8 word \<Rightarrow> 8 word \<Rightarrow> 8 word" where
  "qadd8 x y = (if 255 < unat x + unat y then 255 else x + y)"

fun crgb_add :: "crgb \<Rightarrow> crgb \<Rightarrow> crgb" where
  "crgb_add (CRGB r1 g1 b1) (CRGB r2 g2 b2) = CRGB (qadd8 r1 r2) (qadd8 g1 g2) (qadd8 b1 b2)"

definition add_at :: "int \<Rightarrow> crgb \<Rightarrow> crgb list \<Rightarrow> crgb list option" where
  "add_at i c l = do { p \<leftarrow> rd i l; wr i (crgb_add p c) l }"

section \<open>The hue distribution \<^verbatim>\<open>fill_ring_with_exact_rainbow\<close>\<close>

text \<open>
  \<open>base\<close> is the offset of the \<^verbatim>\<open>ring\<close> pointer into \<^verbatim>\<open>leds\<close>.  The loop
  state is the buffer, \<^verbatim>\<open>hue\<close> and \<^verbatim>\<open>error\<close>.  \<^verbatim>\<open>256.0 / ringSize\<close> is a
  \<^verbatim>\<open>double\<close> division narrowed to \<^verbatim>\<open>float\<close>; \<^verbatim>\<open>error -= 1.0\<close> subtracts in
  \<^verbatim>\<open>double\<close> and narrows; the other operations are \<^verbatim>\<open>float\<close> operations.
  For \<open>ringSize = 0\<close> the C division yields infinity and the loop body never
  runs; the model's quotient is then unused as well.
\<close>

definition rainbow_body ::
  "fastled \<Rightarrow> int \<Rightarrow> rat \<Rightarrow> rat \<Rightarrow> int \<Rightarrow> crgb list \<times> rat \<times> rat \<Rightarrow> (crgb list \<times> rat \<times> rat) option" where
  "rainbow_body L base baseIncrement fractional i st =
    (case st of (l, hue, err) \<Rightarrow>
      do {
        l' \<leftarrow> wr (base + i) (hsv2rgb L (CHSV (u8_of_float hue) 255 255)) l;
        let hue1 = f32 (hue + baseIncrement);
            err1 = f32 (err + fractional)
        in if err1 \<ge> 1 then Some (l', f32 (hue1 + 1), f32 (f64 (err1 - 1)))
           else Some (l', hue1, err1)
      })"

definition fill_ring_with_exact_rainbow ::
  "fastled \<Rightarrow> int \<Rightarrow> 8 word \<Rightarrow> 8 word \<Rightarrow> crgb list \<Rightarrow> crgb list option" where
  "fill_ring_with_exact_rainbow L base ringSize startHue l =
    (let baseIncrement = f32 5;
         exactStep = f32 (f64 (256 / of_int (uint ringSize)));
         fractional = f32 (exactStep - baseIncrement)
     in map_option fst
          (for_range 0 (uint ringSize) (rainbow_body L base baseIncrement fractional)
             (l, of_int (uint startHue), 0)))"

text \<open>
  The hue the specification describes for pixel \<open>i\<close> of a 48-pixel ring: a
  step of 5 per pixel and one more unit after every third pixel, modulo 256.
\<close>

definition spec_hue :: "8 word \<Rightarrow> nat \<Rightarrow> 8 word" where
  "spec_hue startHue i = startHue + of_nat (5 * i + i div 3)"

section \<open>The animation task \<^verbatim>\<open>ledRingTask\<close>\<close>

text \<open>
  The state of the task is the frame buffer \<^verbatim>\<open>leds\<close> together with the
  \<^verbatim>\<open>static\<close> variables of the function, those declared at its top and those
  declared inside the \<^verbatim>\<open>case\<close> blocks.  \<open>shockInitialized\<close> is the guard the
  compiler keeps for the two \<^verbatim>\<open>static\<close> variables of mode 22 whose
  initialisers call \<^verbatim>\<open>random\<close>: they run the first time control passes the
  declarations.  C \<^verbatim>\<open>int\<close> variables are modelled as \<^typ>\<open>int\<close>; all of them stay
  below 48 or 60 except \<^verbatim>\<open>dropCounter\<close>, which only grows (one step every
  100 ms) and of which only the residue modulo 4 is used.
\<close>

record ring_state =
  leds :: "crgb list"
  startHueRing1 :: "8 word"
  startHueRing2 :: "8 word"
  theatreOffset :: "8 word"
  wipeExp :: int
  wipeColor :: crgb
  sideWipeInitialized :: bool
  gHue :: "8 word"
  toggle :: bool
  runIndex1 :: int
  runIndex2 :: int
  laserPos1 :: int
  laserPos2 :: int
  strobeOn :: bool
  strobeCount :: int
  cometPos1 :: int
  cometPos2 :: int
  bouncePos1 :: int
  bounceDir1 :: int
  bouncePos2 :: int
  bounceDir2 :: int
  swirlX :: "16 word"
  barPos1 :: int
  barPos2 :: int
  rippleCenter1 :: int
  rippleCenter2 :: int
  pulseCounter :: int
  shockInitialized :: bool
  shockExp :: int
  shockCenter1 :: int
  shockCenter2 :: int
  dropCounter :: int
  slicePos1 :: int
  slicePos2 :: int
  gapPos1 :: int
  gapPos2 :: int

definition init_ring_state :: ring_state where
  "init_ring_state =
    \<lparr> leds = replicate 96 Black,
      startHueRing1 = 0, startHueRing2 = 0, theatreOffset = 0,
      wipeExp = 0, wipeColor = Blue, sideWipeInitialized = False,
      gHue = 0, toggle = False,
      runIndex1 = 0, runIndex2 = 0, laserPos1 = 0, laserPos2 = 0,
      strobeOn = False, strobeCount = 0, cometPos1 = 0, cometPos2 = 0,
      bouncePos1 = 0, bounceDir1 = 1, bouncePos2 = 0, bounceDir2 = 1,
      swirlX = 0, barPos1 = 0, barPos2 = 0, rippleCenter1 = 0, rippleCenter2 = 0,
      pulseCounter = 0, shockInitialized = False, shockExp = 0,
      shockCenter1 = 0, shockCenter2 = 0, dropCounter = 0,
      slicePos1 = 0, slicePos2 = 0, gapPos1 = 0, gapPos2 = 0 \<rparr>"

text \<open>
  The statements of \<^verbatim>\<open>ledRingTask\<close> before its \<^verbatim>\<open>while (1)\<close> loop.  They run
  once, when the task starts.
\<close>

definition ledRingTask_start :: "config \<Rightarrow> ring_state \<Rightarrow> ring_state" where
  "ledRingTask_start c s =
    (if currentMode c \<noteq> 4 then s\<lparr>sideWipeInitialized := False\<rparr> else s)"

text \<open>
  Each mode below is one \<^verbatim>\<open>case\<close> of the \<^verbatim>\<open>switch\<close>.  It returns the new
  state and the milliseconds passed to \<^verbatim>\<open>vTaskDelay\<close> during the iteration (the
  argument before its division by \<^verbatim>\<open>portTICK_PERIOD_MS\<close>).  \<^verbatim>\<open>FastLED.show()\<close>
  transmits the buffer and changes no variable of the program.
\<close>

type_synonym frame = "(ring_state \<times> nat) option"

definition hsv :: "fastled \<Rightarrow> 8 word \<Rightarrow> 8 word \<Rightarrow> 8 word \<Rightarrow> crgb" where
  "hsv L h sa v = hsv2rgb L (CHSV h sa v)"

definition mode0 :: "fastled \<Rightarrow> ring_state \<Rightarrow> frame" where
  "mode0 L s = do {
     l1 \<leftarrow> fill_ring_with_exact_rainbow L 0 (word_of_int RING_LEDS) (startHueRing1 s) (leds s);
     l2 \<leftarrow> fill_ring_with_exact_rainbow L RING_LEDS (word_of_int RING_LEDS) (startHueRing2 s) l1;
     Some (s\<lparr>leds := l2, startHueRing1 := startHueRing1 s + 1,
              startHueRing2 := startHueRing2 s + 1\<rparr>, 10) }"

definition mode1 :: "ring_state \<Rightarrow> frame" where
  "mode1 s = do {
     l1 \<leftarrow> fill_solid 0 NUM_LEDS Blue (leds s);
     Some (s\<lparr>leds := l1\<rparr>, 50) }"

definition mode2 :: "ring_state \<Rightarrow> frame" where
  "mode2 s = do {
     l1 \<leftarrow> fill_solid 0 NUM_LEDS (if toggle s then White else Black) (leds s);
     Some (s\<lparr>leds := l1, toggle := \<not> toggle s\<rparr>, 100) }"

definition mode3 :: "ring_state \<Rightarrow> frame" where
  "mode3 s = do {
     l1 \<leftarrow> fill_solid 0 NUM_LEDS Black (leds s);
     l2 \<leftarrow> for_range 0 NUM_LEDS
             (\<lambda>i l. if (i + uint (theatreOffset s)) smod 3 = 0 then wr i White l else Some l) l1;
     Some (s\<lparr>leds := l2, theatreOffset := theatreOffset s + 1\<rparr>, 50) }"

definition mode4 :: "ring_state \<Rightarrow> frame" where
  "mode4 s = do {
     (s1, d1) \<leftarrow>
       (if \<not> sideWipeInitialized s then do {
          l0 \<leftarrow> fill_solid 0 NUM_LEDS Black (leds s);
          Some (s\<lparr>leds := l0, wipeExp := 0, sideWipeInitialized := True\<rparr>, 50) }
        else Some (s, 0));
     let idx1 = wipeExp s1;
     let idx2 = 47 - wipeExp s1;
     l1 \<leftarrow> (if idx1 \<le> idx2 then do {
              l \<leftarrow> wr idx1 (wipeColor s1) (leds s1);
              wr idx2 (wipeColor s1) l }
            else Some (leds s1));
     let idx3 = 48 + wipeExp s1;
     let idx4 = 95 - wipeExp s1;
     l2 \<leftarrow> (if idx3 \<le> idx4 then do {
              l \<leftarrow> wr idx3 (wipeColor s1) l1;
              wr idx4 (wipeColor s1) l }
            else Some l1);
     let s2 = s1\<lparr>leds := l2, wipeExp := wipeExp s1 + 1\<rparr>;
     let s3 = (if wipeExp s2 > 24
               then s2\<lparr>wipeExp := 0,
                       wipeColor := (if wipeColor s2 = Blue then Red else Blue)\<rparr>
               else s2);
     Some (s3, d1 + 15) }"

definition mode5 :: "fastled \<Rightarrow> calls \<Rightarrow> ring_state \<Rightarrow> frame" where
  "mode5 L E s = do {
     l1 \<leftarrow> fadeToBlackBy L NUM_LEDS 10 (leds s);
     let pos = lib_random E 0 NUM_LEDS;
     l2 \<leftarrow> wr pos (hsv L (word_of_int (lib_random E 1 256)) 200 255) l1;
     Some (s\<lparr>leds := l2\<rparr>, 30) }"

definition mode6 :: "fastled \<Rightarrow> calls \<Rightarrow> ring_state \<Rightarrow> frame" where
  "mode6 L E s = do {
     l1 \<leftarrow> fadeToBlackBy L NUM_LEDS 20 (leds s);
     let pos1 = lib_beatsin8 E 0 10 0 (word_of_int (RING_LEDS - 1));
     l2 \<leftarrow> add_at (uint pos1) (hsv L (gHue s) 200 255) l1;
     let pos2 = lib_beatsin8 E 1 10 0 (word_of_int (RING_LEDS - 1));
     let pos2Mapped = (word_of_int ((RING_LEDS - 1) - uint pos2) :: 8 word);
     l3 \<leftarrow> add_at (RING_LEDS + uint pos2Mapped) (hsv L (gHue s + 64) 200 255) l2;
     Some (s\<lparr>leds := l3, gHue := gHue s + 1\<rparr>, 20) }"

definition mode7 :: "fastled \<Rightarrow> calls \<Rightarrow> ring_state \<Rightarrow> frame" where
  "mode7 L E s = do {
     l1 \<leftarrow> fadeToBlackBy L NUM_LEDS 20 (leds s);
     l2 \<leftarrow> for_range 0 4
             (\<lambda>i l. let pos = uint (lib_beatsin16 E (nat i) (word_of_int (7 + i)) 0
                                      (word_of_int (RING_LEDS - 1)) 0 (word_of_int (i * 1000)))
                    in add_at pos (hsv L (gHue s + word_of_int (i * 32)) 200 255) l) l1;
     l3 \<leftarrow> for_range 0 4
             (\<lambda>i l. let pos = uint (lib_beatsin16 E (4 + nat i) (word_of_int (7 + i)) 0
                                      (word_of_int (RING_LEDS - 1)) 0 (word_of_int (i * 1000)));
                        posMapped = (word_of_int ((RING_LEDS - 1) - pos) :: 8 word)
                    in add_at (RING_LEDS + uint posMapped)
                         (hsv L (gHue s + 128 + word_of_int (i * 32)) 200 255) l) l2;
     Some (s\<lparr>leds := l3, gHue := gHue s + 1\<rparr>, 20) }"

definition mode8 :: "fastled \<Rightarrow> ring_state \<Rightarrow> frame" where
  "mode8 L s = do {
     l1 \<leftarrow> fadeToBlackBy L NUM_LEDS 50 (leds s);
     l2 \<leftarrow> wr (runIndex1 s) White l1;
     l3 \<leftarrow> wr (runIndex2 s + RING_LEDS) White l2;
     Some (s\<lparr>leds := l3, runIndex1 := (runIndex1 s + 1) smod RING_LEDS,
              runIndex2 := (runIndex2 s + 1) smod RING_LEDS\<rparr>, 30) }"

definition mode9 :: "fastled \<Rightarrow> ring_state \<Rightarrow> frame" where
  "mode9 L s = do {
     l1 \<leftarrow> fadeToBlackBy L NUM_LEDS 40 (leds s);
     l2 \<leftarrow> for_range 0 3
             (\<lambda>i l. let pos = (laserPos1 s + i) smod RING_LEDS
                    in wr pos (hsv L (gHue s) 255 255) l) l1;
     l3 \<leftarrow> for_range 0 3
             (\<lambda>i l. let pos = (laserPos2 s + i) smod RING_LEDS;
                        mappedPos = (RING_LEDS - 1) - pos
                    in wr (RING_LEDS + mappedPos) (hsv L (gHue s + 64) 255 255) l) l2;
     Some (s\<lparr>leds := l3, laserPos1 := (laserPos1 s + 1) smod RING_LEDS,
              laserPos2 := (laserPos2 s + 1) smod RING_LEDS, gHue := gHue s + 1\<rparr>, 20) }"

definition mode10 :: "fastled \<Rightarrow> calls \<Rightarrow> config \<Rightarrow> ring_state \<Rightarrow> frame" where
  "mode10 L E c s = do {
     s1 \<leftarrow> (if strobeOn s then do {
              l1 \<leftarrow> fill_solid 0 NUM_LEDS
                      (hsv L (gHue s) 255 (word_of_int (ringBrightness c))) (leds s);
              let s' = s\<lparr>leds := l1, strobeCount := strobeCount s + 1\<rparr>;
              Some (if strobeCount s' > 2 then s'\<lparr>strobeOn := False, strobeCount := 0\<rparr> else s') }
            else do {
              l1 \<leftarrow> fadeToBlackBy L NUM_LEDS 80 (leds s);
              let s' = s\<lparr>leds := l1\<rparr>;
              Some (if lib_random8 E 0 < 50 then s'\<lparr>strobeOn := True\<rparr> else s') });
     Some (s1\<lparr>gHue := gHue s1 + 1\<rparr>, 30) }"

definition mode11 :: "fastled \<Rightarrow> ring_state \<Rightarrow> frame" where
  "mode11 L s = do {
     l1 \<leftarrow> fadeToBlackBy L NUM_LEDS 40 (leds s);
     l2 \<leftarrow> wr (cometPos1 s) (hsv L (gHue s) 255 255) l1;
     l3 \<leftarrow> wr (cometPos2 s) (hsv L (gHue s + 32) 255 255) l2;
     let mapped1 = (RING_LEDS - 1) - cometPos1 s;
     let mapped2 = (RING_LEDS - 1) - cometPos2 s;
     l4 \<leftarrow> wr (RING_LEDS + mapped1) (hsv L (gHue s + 64) 255 255) l3;
     l5 \<leftarrow> wr (RING_LEDS + mapped2) (hsv L (gHue s + 96) 255 255) l4;
     Some (s\<lparr>leds := l5, cometPos1 := (cometPos1 s + 1) smod RING_LEDS,
              cometPos2 := (cometPos2 s + 2) smod RING_LEDS, gHue := gHue s + 1\<rparr>, 30) }"

definition mode12 :: "fastled \<Rightarrow> ring_state \<Rightarrow> frame" where
  "mode12 L s = do {
     l1 \<leftarrow> fadeToBlackBy L NUM_LEDS 50 (leds s);
     l2 \<leftarrow> wr (bouncePos1 s) (hsv L (gHue s) 255 255) l1;
     let mappedBounce = (RING_LEDS - 1) - bouncePos2 s;
     l3 \<leftarrow> wr (RING_LEDS + mappedBounce) (hsv L (gHue s + 64) 255 255) l2;
     let s1 = s\<lparr>leds := l3, bouncePos1 := bouncePos1 s + bounceDir1 s\<rparr>;
     let s2 = (if bouncePos1 s1 \<ge> RING_LEDS - 1 \<or> bouncePos1 s1 \<le> 0
               then s1\<lparr>bounceDir1 := - bounceDir1 s1\<rparr> else s1);
     let s3 = s2\<lparr>bouncePos2 := bouncePos2 s2 + bounceDir2 s2\<rparr>;
     let s4 = (if bouncePos2 s3 \<ge> RING_LEDS - 1 \<or> bouncePos2 s3 \<le> 0
               then s3\<lparr>bounceDir2 := - bounceDir2 s3\<rparr> else s3);
     Some (s4\<lparr>gHue := gHue s4 + 1\<rparr>, 40) }"

definition mode13 :: "fastled \<Rightarrow> config \<Rightarrow> ring_state \<Rightarrow> frame" where
  "mode13 L c s = do {
     l1 \<leftarrow> for_range 0 RING_LEDS
             (\<lambda>i l. let noise = inoise8 L (word_of_int (i * 40) + swirlX s)
                    in wr i (hsv L noise 255 (word_of_int (ringBrightness c))) l) (leds s);
     l2 \<leftarrow> for_range 0 RING_LEDS
             (\<lambda>i l. let noise = inoise8 L (word_of_int (i * 40) + swirlX s);
                        mapped = (RING_LEDS - 1) - i
                    in wr (RING_LEDS + mapped)
                         (hsv L (noise + 64) 255 (word_of_int (ringBrightness c))) l) l1;
     Some (s\<lparr>leds := l2, swirlX := swirlX s + 30\<rparr>, 20) }"

definition mode14 :: "fastled \<Rightarrow> config \<Rightarrow> ring_state \<Rightarrow> frame" where
  "mode14 L c s = do {
     let stripeWidth = 4;
     let offset = uint (gHue s) smod (stripeWidth * 2);
     l1 \<leftarrow> for_range 0 RING_LEDS
             (\<lambda>i l. if (i + offset) smod (stripeWidth * 2) < stripeWidth
                    then wr i (hsv L (gHue s) 255 (word_of_int (ringBrightness c))) l
                    else wr i Black l) (leds s);
     l2 \<leftarrow> for_range 0 RING_LEDS
             (\<lambda>i l. let mapped = (RING_LEDS - 1) - i
                    in if (i + offset) smod (stripeWidth * 2) < stripeWidth
                       then wr (RING_LEDS + mapped)
                              (hsv L (gHue s + 64) 255 (word_of_int (ringBrightness c))) l
                       else wr (RING_LEDS + mapped) Black l) l1;
     Some (s\<lparr>leds := l2, gHue := gHue s + 1\<rparr>, 30) }"

definition mode15 :: "fastled \<Rightarrow> ring_state \<Rightarrow> frame" where
  "mode15 L s = do {
     l1 \<leftarrow> for_range 0 RING_LEDS
             (\<lambda>i l. let bri = sin8 L (word_of_int (i * 10) + gHue s)
                    in wr i (hsv L (gHue s) 255 bri) l) (leds s);
     l2 \<leftarrow> for_range 0 RING_LEDS
             (\<lambda>i l. let bri = sin8 L (word_of_int (i * 10) + gHue s);
                        mapped = (RING_LEDS - 1) - i
                    in wr (RING_LEDS + mapped) (hsv L (gHue s + 96) 255 bri) l) l1;
     Some (s\<lparr>leds := l2, gHue := gHue s + 1\<rparr>, 20) }"

definition mode16 :: "fastled \<Rightarrow> calls \<Rightarrow> ring_state \<Rightarrow> frame" where
  "mode16 L E s = do {
     l1 \<leftarrow> fadeToBlackBy L NUM_LEDS 30 (leds s);
     l2 \<leftarrow> (if lib_random8 E 0 < 80
            then let pos = lib_random E 0 RING_LEDS
                 in wr pos (hsv L (gHue s) 200 255) l1
            else Some l1);
     l3 \<leftarrow> (if lib_random8 E 1 < 80
            then let pos = lib_random E 1 RING_LEDS;
                     mapped = (RING_LEDS - 1) - pos
                 in wr (RING_LEDS + mapped) (hsv L (gHue s + 64) 200 255) l2
            else Some l2);
     Some (s\<lparr>leds := l3, gHue := gHue s + 1\<rparr>, 30) }"

definition mode17 :: "fastled \<Rightarrow> config \<Rightarrow> ring_state \<Rightarrow> frame" where
  "mode17 L c s = do {
     l1 \<leftarrow> fill_solid 0 RING_LEDS Black (leds s);
     l2 \<leftarrow> for_range 0 6
             (\<lambda>i l. let pos = (barPos1 s + i) smod RING_LEDS
                    in wr pos (hsv L (gHue s) 255 (word_of_int (ringBrightness c))) l) l1;
     l3 \<leftarrow> fill_solid RING_LEDS RING_LEDS Black l2;
     l4 \<leftarrow> for_range 0 6
             (\<lambda>i l. let pos = (barPos2 s + i) smod RING_LEDS;
                        mapped = (RING_LEDS - 1) - pos
                    in wr (RING_LEDS + mapped)
                         (hsv L (gHue s + 64) 255 (word_of_int (ringBrightness c))) l) l3;
     Some (s\<lparr>leds := l4, barPos1 := (barPos1 s + 1) smod RING_LEDS,
              barPos2 := (barPos2 s + 1) smod RING_LEDS, gHue := gHue s + 1\<rparr>, 30) }"

text \<open>The Arduino macro \<^verbatim>\<open>constrain(amt, low, high)\<close>.\<close>

definition constrain :: "int \<Rightarrow> int \<Rightarrow> int \<Rightarrow> int" where
  "constrain amt low high = (if amt < low then low else if amt > high then high else amt)"

definition ripple_bri :: "int \<Rightarrow> int \<Rightarrow> 8 word" where
  "ripple_bri i center =
    (let d = \<bar>i - center\<bar>;
         d = min d (RING_LEDS - d);
         bri = (word_of_int (255 - d * (255 sdiv (RING_LEDS sdiv 2))) :: 8 word)
     in word_of_int (constrain (uint bri) 0 255))"

definition mode18 :: "fastled \<Rightarrow> ring_state \<Rightarrow> frame" where
  "mode18 L s = do {
     l1 \<leftarrow> for_range 0 RING_LEDS
             (\<lambda>i l. wr i (hsv L (gHue s) 255 (ripple_bri i (rippleCenter1 s))) l) (leds s);
     l2 \<leftarrow> for_range 0 RING_LEDS
             (\<lambda>i l. let mapped = (RING_LEDS - 1) - i
                    in wr (RING_LEDS + mapped)
                         (hsv L (gHue s + 128) 255 (ripple_bri i (rippleCenter2 s))) l) l1;
     Some (s\<lparr>leds := l2, rippleCenter1 := (rippleCenter1 s + 1) smod RING_LEDS,
              rippleCenter2 := (rippleCenter2 s + 1) smod RING_LEDS, gHue := gHue s + 1\<rparr>, 40) }"

definition mode19 :: "fastled \<Rightarrow> calls \<Rightarrow> ring_state \<Rightarrow> frame" where
  "mode19 L E s = do {
     let pulseVal = lib_beatsin8 E 0 30 220 255;
     l1 \<leftarrow> fill_solid 0 NUM_LEDS (hsv L (gHue s) 255 pulseVal) (leds s);
     Some (s\<lparr>leds := l1, gHue := gHue s + 1\<rparr>, 20) }"

definition mode20 :: "fastled \<Rightarrow> ring_state \<Rightarrow> frame" where
  "mode20 L s = do {
     l1 \<leftarrow> fill_solid 0 RING_LEDS (hsv L (gHue s) 255 255) (leds s);
     l2 \<leftarrow> fill_solid RING_LEDS RING_LEDS (hsv L (gHue s + 64) 255 255) l1;
     Some (s\<lparr>leds := l2, gHue := gHue s + 5\<rparr>, 20) }"

definition mode21 :: "fastled \<Rightarrow> ring_state \<Rightarrow> frame" where
  "mode21 L s = do {
     let baseBri = 220;
     let flashBri = 255;
     let bri = (if pulseCounter s smod 60 < 5 then flashBri else baseBri);
     l1 \<leftarrow> fill_solid 0 NUM_LEDS (hsv L (gHue s) 255 bri) (leds s);
     Some (s\<lparr>leds := l1, pulseCounter := (pulseCounter s + 1) smod 60,
              gHue := gHue s + 1\<rparr>, 30) }"

definition shock_dist :: "int \<Rightarrow> int \<Rightarrow> int" where
  "shock_dist i center =
    (let d = \<bar>i - center\<bar> in if d > RING_LEDS sdiv 2 then RING_LEDS - d else d)"

definition mode22 :: "fastled \<Rightarrow> calls \<Rightarrow> ring_state \<Rightarrow> frame" where
  "mode22 L E s = do {
     let s0 = (if shockInitialized s then s
               else s\<lparr>shockInitialized := True,
                      shockCenter1 := lib_random E 0 RING_LEDS,
                      shockCenter2 := lib_random E 1 RING_LEDS\<rparr>);
     l1 \<leftarrow> fill_solid 0 NUM_LEDS Black (leds s0);
     l2 \<leftarrow> for_range 0 RING_LEDS
             (\<lambda>i l. if shock_dist i (shockCenter1 s0) \<le> shockExp s0
                    then wr i (hsv L (gHue s0) 255 255) l else Some l) l1;
     l3 \<leftarrow> for_range 0 RING_LEDS
             (\<lambda>i l. if shock_dist i (shockCenter2 s0) \<le> shockExp s0
                    then let mapped = (RING_LEDS - 1) - i
                         in wr (RING_LEDS + mapped) (hsv L (gHue s0 + 32) 255 255) l
                    else Some l) l2;
     let s1 = s0\<lparr>leds := l3, shockExp := shockExp s0 + 3\<rparr>;
     let s2 = (if shockExp s1 > 12
               then s1\<lparr>shockExp := 0,
                       shockCenter1 := lib_random E 2 RING_LEDS,
                       shockCenter2 := lib_random E 3 RING_LEDS,
                       gHue := gHue s1 + 1\<rparr>
               else s1);
     Some (s2, 10) }"

definition mode23 :: "fastled \<Rightarrow> ring_state \<Rightarrow> frame" where
  "mode23 L s = do {
     l1 \<leftarrow> (if dropCounter s smod 4 = 0
            then fill_solid 0 NUM_LEDS (hsv L (gHue s) 255 255) (leds s)
            else fill_solid 0 NUM_LEDS Black (leds s));
     Some (s\<lparr>leds := l1, dropCounter := dropCounter s + 1, gHue := gHue s + 3\<rparr>, 100) }"

definition mode24 :: "fastled \<Rightarrow> calls \<Rightarrow> ring_state \<Rightarrow> frame" where
  "mode24 L E s = do {
     let bars = 3;
     let barWidth = RING_LEDS sdiv bars;
     l1 \<leftarrow> for_range 0 bars
             (\<lambda>b l. do {
                let height1 = lib_random8_range E (nat (2 * b)) 1 (word_of_int (barWidth + 1));
                let height2 = lib_random8_range E (nat (2 * b + 1)) 1 (word_of_int (barWidth + 1));
                la \<leftarrow> for_range 0 barWidth
                        (\<lambda>i l. let idx = b * barWidth + i
                               in if i < uint height1
                                  then wr idx (hsv L (gHue s + word_of_int (b * 40)) 255 255) l
                                  else wr idx Black l) l;
                for_range 0 barWidth
                  (\<lambda>i l. let revIdx = b * barWidth + (barWidth - 1 - i)
                         in if i < uint height2
                            then wr (RING_LEDS + revIdx)
                                   (hsv L (gHue s + 128 + word_of_int (b * 40)) 255 255) l
                            else wr (RING_LEDS + revIdx) Black l) la }) (leds s);
     Some (s\<lparr>leds := l1, gHue := gHue s + 1\<rparr>, 80) }"

definition mode25 :: "fastled \<Rightarrow> ring_state \<Rightarrow> frame" where
  "mode25 L s = do {
     l1 \<leftarrow> fadeToBlackBy L NUM_LEDS 80 (leds s);
     l2 \<leftarrow> for_range 0 6
             (\<lambda>i l. let pos = (slicePos1 s + i) smod RING_LEDS
                    in wr pos (hsv L (gHue s) 255 255) l) l1;
     l3 \<leftarrow> for_range 0 6
             (\<lambda>i l. let pos = (slicePos2 s + i) smod RING_LEDS;
                        mapped = (RING_LEDS - 1) - pos
                    in wr (RING_LEDS + mapped) (hsv L (gHue s + 64) 255 255) l) l2;
     Some (s\<lparr>leds := l3, slicePos1 := (slicePos1 s + 2) smod RING_LEDS,
              slicePos2 := (slicePos2 s + 2) smod RING_LEDS, gHue := gHue s + 2\<rparr>, 10) }"

definition mode26 :: "fastled \<Rightarrow> ring_state \<Rightarrow> frame" where
  "mode26 L s = do {
     l1 \<leftarrow> fill_solid 0 RING_LEDS (hsv L (gHue s) 255 255) (leds s);
     l2 \<leftarrow> fill_solid RING_LEDS RING_LEDS (hsv L (gHue s + 64) 255 255) l1;
     l3 \<leftarrow> for_range 0 4
             (\<lambda>i l. let pos = (gapPos1 s + i) smod RING_LEDS in wr pos Black l) l2;
     l4 \<leftarrow> for_range 0 4
             (\<lambda>i l. let pos = (gapPos2 s + i) smod RING_LEDS;
                        mapped = (RING_LEDS - 1) - pos
                    in wr (RING_LEDS + mapped) Black l) l3;
     Some (s\<lparr>leds := l4, gapPos1 := (gapPos1 s + 3) smod RING_LEDS,
              gapPos2 := (gapPos2 s + 3) smod RING_LEDS, gHue := gHue s + 1\<rparr>, 50) }"

definition mode_default :: "ring_state \<Rightarrow> frame" where
  "mode_default s = do {
     l1 \<leftarrow> fill_solid 0 NUM_LEDS Black (leds s);
     Some (s\<lparr>leds := l1\<rparr>, 50) }"

text \<open>
  One iteration of the \<^verbatim>\<open>while (1)\<close> loop: the \<^verbatim>\<open>switch\<close> on the value of
  \<^verbatim>\<open>currentMode\<close> read at its head.  \<open>c\<close> is the configuration the iteration
  sees and \<open>E\<close> the results of its library calls.
\<close>

definition ledRingTask_iter :: "fastled \<Rightarrow> calls \<Rightarrow> config \<Rightarrow> ring_state \<Rightarrow> frame" where
  "ledRingTask_iter L E c s =
    (let m = currentMode c in
     if m = 0 then mode0 L s
     else if m = 1 then mode1 s
     else if m = 2 then mode2 s
     else if m = 3 then mode3 s
     else if m = 4 then mode4 s
     else if m = 5 then mode5 L E s
     else if m = 6 then mode6 L E s
     else if m = 7 then mode7 L E s
     else if m = 8 then mode8 L s
     else if m = 9 then mode9 L s
     else if m = 10 then mode10 L E c s
     else if m = 11 then mode11 L s
     else if m = 12 then mode12 L s
     else if m = 13 then mode13 L c s
     else if m = 14 then mode14 L c s
     else if m = 15 then mode15 L s
     else if m = 16 then mode16 L E s
     else if m = 17 then mode17 L c s
     else if m = 18 then mode18 L s
     else if m = 19 then mode19 L E s
     else if m = 20 then mode20 L s
     else if m = 21 then mode21 L s
     else if m = 22 then mode22 L E s
     else if m = 23 then mode23 L s
     else if m = 24 then mode24 L E s
     else if m = 25 then mode25 L s
     else if m = 26 then mode26 L s
     else mode_default s)"

text \<open>
  The task run over a sequence of iterations, each with the configuration and
  the library results it sees; the result is the state after the last one.
\<close>

fun ledRingTask_loop :: "fastled \<Rightarrow> (calls \<times> config) list \<Rightarrow> ring_state \<Rightarrow> ring_state option" where
  "ledRingTask_loop L [] s = Some s"
| "ledRingTask_loop L ((E, c) # fs) s =
    (case ledRingTask_iter L E c s of
       None \<Rightarrow> None
     | Some (s', d) \<Rightarrow> ledRingTask_loop L fs s')"

text \<open>
  The states the task can be in at the head of its loop: the statics as
  initialised, after the statements before the loop, and after any number of
  iterations, whatever mode each of them sees and whatever the library returns
  within its documented ranges.
\<close>

inductive ring_reachable :: "fastled \<Rightarrow> ring_state \<Rightarrow> bool" for L :: fastled where
  task_start: "ring_reachable L (ledRingTask_start c init_ring_state)"
| iteration: "ring_reachable L s \<Longrightarrow> calls_ok E \<Longrightarrow> ledRingTask_iter L E c s = Some (s', d)
               \<Longrightarrow> ring_reachable L s'"

section \<open>Invariants and proof devices\<close>

text \<open>
  The loop invariant of \<^verbatim>\<open>fill_ring_with_exact_rainbow\<close> for a ring of 48
  pixels, before iteration \<open>i\<close>: the hue is the starting hue plus
  \<open>5 * i + i div 3\<close>, the error is \<open>(i mod 3) * f + (i div 3) * 2\<^sup>-\<^sup>2\<^sup>1\<close> for
  the \<^verbatim>\<open>float\<close> \<open>f = 699051 * 2\<^sup>-\<^sup>2\<^sup>1\<close> nearest to a third, the pixels before
  \<open>base + i\<close> are written and the others untouched.
\<close>

definition rb_inv :: "fastled \<Rightarrow> int \<Rightarrow> crgb list \<Rightarrow> 8 word \<Rightarrow> int \<Rightarrow> crgb list \<times> rat \<times> rat \<Rightarrow> bool" where
  "rb_inv L base l0 h0 i st =
    (case st of (l, hue, err) \<Rightarrow>
       length l = length l0
       \<and> hue = of_int (uint h0 + 5 * i + i div 3)
       \<and> err = of_int ((i mod 3) * 699051 + i div 3) / 2 ^ 21
       \<and> (\<forall>j. 0 \<le> j \<and> j < i \<longrightarrow> l ! nat (base + j) = hsv2rgb L (CHSV (spec_hue h0 (nat j)) 255 255))
       \<and> (\<forall>n. n < nat base \<or> nat (base + i) \<le> n \<longrightarrow> l ! n = l0 ! n))"

text \<open>\<open>succeeds m Q\<close>: the computation \<open>m\<close> does not fail and its result satisfies \<open>Q\<close>.\<close>

definition succeeds :: "'a option \<Rightarrow> ('a \<Rightarrow> bool) \<Rightarrow> bool" where
  "succeeds m Q = (\<exists>x. m = Some x \<and> Q x)"

text \<open>A position on a ring, and a bouncing dot about to move inside the ring.\<close>

definition in_ring :: "int \<Rightarrow> bool" where
  "in_ring p = (0 \<le> p \<and> p < RING_LEDS)"

definition bounce_ok :: "int \<Rightarrow> int \<Rightarrow> bool" where
  "bounce_ok p d =
    ((p = 0 \<and> d = 1) \<or> (p = RING_LEDS - 1 \<and> d = - 1)
     \<or> (0 < p \<and> p < RING_LEDS - 1 \<and> (d = 1 \<or> d = - 1)))"

text \<open>What the variables used as array indices satisfy at the head of the loop.\<close>

definition ring_inv :: "ring_state \<Rightarrow> bool" where
  "ring_inv s =
    (length (leds s) = 96
     \<and> 0 \<le> wipeExp s \<and> wipeExp s \<le> 24
     \<and> (wipeColor s = Blue \<or> wipeColor s = Red)
     \<and> in_ring (runIndex1 s) \<and> in_ring (runIndex2 s)
     \<and> in_ring (laserPos1 s) \<and> in_ring (laserPos2 s)
     \<and> in_ring (cometPos1 s) \<and> in_ring (cometPos2 s)
     \<and> bounce_ok (bouncePos1 s) (bounceDir1 s) \<and> bounce_ok (bouncePos2 s) (bounceDir2 s)
     \<and> in_ring (barPos1 s) \<and> in_ring (barPos2 s)
     \<and> in_ring (slicePos1 s) \<and> in_ring (slicePos2 s)
     \<and> in_ring (gapPos1 s) \<and> in_ring (gapPos2 s))"

text \<open>The three variables of the side wipe are the same in both states.\<close>

definition same_wipe :: "ring_state \<Rightarrow> ring_state \<Rightarrow> bool" where
  "same_wipe s s' =
    (wipeExp s' = wipeExp s \<and> wipeColor s' = wipeColor s
     \<and> sideWipeInitialized s' = sideWipeInitialized s)"

text \<open>
  A library whose random numbers are 0 and whose beat generators rest at their
  lowest value; it respects the documented ranges.
\<close>

definition quiet_calls :: calls where
  "quiet_calls =
    \<lparr> lib_random = (\<lambda>k n. 0), lib_random8 = (\<lambda>k. 0),
      lib_random8_range = (\<lambda>k lo hi. lo),
      lib_beatsin8 = (\<lambda>k bpm lo hi. lo),
      lib_beatsin16 = (\<lambda>k bpm lo hi tb ph. lo) \<rparr>"


text \<open>
  A conversion from \<^verbatim>\<open>CHSV\<close> that keeps the three components as they are, so
  that the hue a pixel was written with can be read back from it; the other
  library functions do nothing.
\<close>

definition plain_hsv :: fastled where
  "plain_hsv =
    \<lparr> hsv2rgb = (\<lambda>x. case x of CHSV h sa v \<Rightarrow> CRGB h sa v),
      nscale8 = (\<lambda>k p. p), sin8 = (\<lambda>x. x), inoise8 = (\<lambda>x. ucast x) \<rparr>"

text \<open>
  What a run of the task leaves behind: the counter \<^verbatim>\<open>startHueRing1\<close>, Ring A
  pixel 0, and the counter and colour of the side wipe.  \<open>rainbow_pixel0 L h\<close> is
  pixel 0 as \<^verbatim>\<open>fill_ring_with_exact_rainbow\<close> writes it for the starting hue \<open>h\<close>.
\<close>

definition startHueRing1_after :: "fastled \<Rightarrow> (calls \<times> config) list \<Rightarrow> ring_state \<Rightarrow> 8 word option" where
  "startHueRing1_after L fs s = map_option startHueRing1 (ledRingTask_loop L fs s)"

definition pixel0_after :: "fastled \<Rightarrow> (calls \<times> config) list \<Rightarrow> ring_state \<Rightarrow> crgb option" where
  "pixel0_after L fs s = map_option (\<lambda>s'. leds s' ! 0) (ledRingTask_loop L fs s)"

definition rainbow_pixel0 :: "fastled \<Rightarrow> 8 word \<Rightarrow> crgb option" where
  "rainbow_pixel0 L h =
    map_option (\<lambda>l. l ! 0) (fill_ring_with_exact_rainbow L 0 48 h (replicate 96 Black))"

definition wipe_after :: "fastled \<Rightarrow> (calls \<times> config) list \<Rightarrow> ring_state \<Rightarrow> (int \<times> crgb) option" where
  "wipe_after L fs s = map_option (\<lambda>s'. (wipeExp s', wipeColor s')) (ledRingTask_loop L fs s)"

text \<open>
  The colour the side wipe switches to, and the value of \<^verbatim>\<open>wipeExp\<close> a mode 4
  iteration draws with: 0 when it first clears the ring, the stored counter
  otherwise.
\<close>

definition other_wipeColor :: "crgb \<Rightarrow> crgb" where
  "other_wipeColor col = (if col = Blue then Red else Blue)"

definition wipe_counter :: "ring_state \<Rightarrow> int" where
  "wipe_counter s = (if sideWipeInitialized s then wipeExp s else 0)"

section \<open>Verification: the configuration writers\<close>

lemma smod_nonneg: "0 \<le> a \<Longrightarrow> 0 < b \<Longrightarrow> (a::int) smod b = a mod b"
  by (simp add: signed_modulo_int_def sgn_if)

lemma handleSet_mode:
  "currentMode (fst (handleSet rq c)) =
     (case mode_arg rq of
        None \<Rightarrow> currentMode c
      | Some v \<Rightarrow> if 0 \<le> v \<and> v \<le> 26 then v else currentMode c)"
  by (auto simp: handleSet_def Let_def numModes_def split: option.splits)

lemma handleSet_bright:
  "ringBrightness (fst (handleSet rq c)) =
     (case brightness_arg rq of
        None \<Rightarrow> ringBrightness c
      | Some v \<Rightarrow> if 0 \<le> v \<and> v \<le> 255 then v else ringBrightness c)"
  by (auto simp: handleSet_def Let_def split: option.splits)

lemma handleSet_response: "snd (handleSet rq c) = \<lparr> status = 302, location = ''/'' \<rparr>"
  by (simp add: handleSet_def Let_def)







text \<open>
  C3 as stated (the web setter clamps, so that a request for 300 stores 255 and a
  request for -5 stores 0) does not hold: \<^verbatim>\<open>handleSet\<close> guards the assignment
  with \<^verbatim>\<open>brightVal >= 0 && brightVal <= 255\<close> and otherwise leaves the stored
  value alone.  From the initial brightness 50, both requests leave 50.
\<close>

theorem handleSet_brightness_clamp_counterexample:
  "ringBrightness (fst (handleSet \<lparr> mode_arg = None, brightness_arg = Some 300 \<rparr> init_config))
      \<noteq> min 255 (max 0 300)
   \<and> ringBrightness (fst (handleSet \<lparr> mode_arg = None, brightness_arg = Some (- 5) \<rparr> init_config))
      \<noteq> min 255 (max 0 (- 5))"
  by (simp add: handleSet_bright init_config_def)

text \<open>
  C3, amended: the web brightness setter rejects out-of-range requests instead of
  clamping them.  For every requested value \<open>b\<close> the stored brightness becomes
  \<open>b\<close> when \<open>0 \<le> b \<le> 255\<close> and keeps its previous value otherwise; in
  particular requests for 300 and for -5 leave the stored brightness unchanged.
\<close>

theorem handleSet_brightness_rejects:
  "(0 \<le> b \<and> b \<le> 255 \<longrightarrow>
      ringBrightness (fst (handleSet \<lparr> mode_arg = m, brightness_arg = Some b \<rparr> c)) = b)
   \<and> (b < 0 \<or> 255 < b \<longrightarrow>
      ringBrightness (fst (handleSet \<lparr> mode_arg = m, brightness_arg = Some b \<rparr> c))
        = ringBrightness c)
   \<and> ringBrightness (fst (handleSet \<lparr> mode_arg = m, brightness_arg = Some 300 \<rparr> c))
        = ringBrightness c
   \<and> ringBrightness (fst (handleSet \<lparr> mode_arg = m, brightness_arg = Some (- 5) \<rparr> c))
        = ringBrightness c"
  by (auto simp: handleSet_bright)

theorem handleSet_brightness_rejects_witness:
  "ringBrightness (fst (handleSet \<lparr> mode_arg = None, brightness_arg = Some 200 \<rparr> init_config)) = 200
   \<and> ringBrightness (fst (handleSet \<lparr> mode_arg = None, brightness_arg = Some 256 \<rparr> init_config)) = 50
   \<and> ringBrightness (fst (handleSet \<lparr> mode_arg = None, brightness_arg = Some 300 \<rparr> init_config)) = 50
   \<and> ringBrightness (fst (handleSet \<lparr> mode_arg = None, brightness_arg = Some (- 5) \<rparr> init_config)) = 50"
  using handleSet_brightness_rejects [of 200 None init_config]
        handleSet_brightness_rejects [of 256 None init_config]
  by (simp add: init_config_def)

text \<open>
  C4: \<^verbatim>\<open>handleSet\<close> treats its two optional fields independently.  The mode is
  replaced exactly when the field is present with \<open>0 \<le> mode \<le> 26\<close>, the
  brightness exactly when the field is present with \<open>0 \<le> brightness \<le> 255\<close>;
  an absent or out-of-range field leaves its stored value unchanged, whatever
  the other field holds, and the handler always answers with the same redirect.
\<close>

theorem handleSet_fieldwise:
  "currentMode (fst (handleSet rq c)) =
     (case mode_arg rq of
        None \<Rightarrow> currentMode c
      | Some v \<Rightarrow> if 0 \<le> v \<and> v \<le> 26 then v else currentMode c)
   \<and> ringBrightness (fst (handleSet rq c)) =
     (case brightness_arg rq of
        None \<Rightarrow> ringBrightness c
      | Some v \<Rightarrow> if 0 \<le> v \<and> v \<le> 255 then v else ringBrightness c)
   \<and> snd (handleSet rq c) = \<lparr> status = 302, location = ''/'' \<rparr>"
  by (simp add: handleSet_mode handleSet_bright handleSet_response)

theorem handleSet_fieldwise_witness:
  "currentMode (fst (handleSet \<lparr> mode_arg = Some 99, brightness_arg = Some 200 \<rparr> init_config)) = 0
   \<and> ringBrightness (fst (handleSet \<lparr> mode_arg = Some 99, brightness_arg = Some 200 \<rparr> init_config)) = 200
   \<and> currentMode (fst (handleSet \<lparr> mode_arg = Some 7, brightness_arg = Some 999 \<rparr> init_config)) = 7
   \<and> ringBrightness (fst (handleSet \<lparr> mode_arg = Some 7, brightness_arg = Some 999 \<rparr> init_config)) = 50
   \<and> fst (handleSet \<lparr> mode_arg = None, brightness_arg = None \<rparr> init_config) = init_config"
  using handleSet_fieldwise [of "\<lparr> mode_arg = Some 99, brightness_arg = Some 200 \<rparr>" init_config]
        handleSet_fieldwise [of "\<lparr> mode_arg = Some 7, brightness_arg = Some 999 \<rparr>" init_config]
  by (simp add: init_config_def handleSet_def)













text \<open>
  C6: from a mode in \<open>[0, 26]\<close>, a loop iteration of the button task that sees a
  press of the mode-increment button alone stores \<open>(m + 1) mod 27\<close> (so 26 goes
  to 0); a press of the mode-decrement button alone stores \<open>m - 1\<close>, and 26
  when \<open>m = 0\<close>; a press of a brightness button alone adds 10 capped at 255
  or subtracts 10 floored at 0.
\<close>

theorem button_events:
  assumes "0 \<le> currentMode c" and "currentMode c \<le> 26"
  shows
   "(pressed (pinModeInc now) (pinModeInc prev) \<and> \<not> pressed (pinModeDec now) (pinModeDec prev)
      \<and> \<not> pressed (pinBrightInc now) (pinBrightInc prev)
      \<and> \<not> pressed (pinBrightDec now) (pinBrightDec prev)
     \<longrightarrow> snd (buttonTask_iter now (prev, c)) = c\<lparr>currentMode := (currentMode c + 1) mod 27\<rparr>
         \<and> (currentMode c = 26 \<longrightarrow> currentMode (snd (buttonTask_iter now (prev, c))) = 0))
    \<and> (\<not> pressed (pinModeInc now) (pinModeInc prev) \<and> pressed (pinModeDec now) (pinModeDec prev)
      \<and> \<not> pressed (pinBrightInc now) (pinBrightInc prev)
      \<and> \<not> pressed (pinBrightDec now) (pinBrightDec prev)
     \<longrightarrow> snd (buttonTask_iter now (prev, c))
           = c\<lparr>currentMode := (if currentMode c = 0 then 26 else currentMode c - 1)\<rparr>)
    \<and> (\<not> pressed (pinModeInc now) (pinModeInc prev) \<and> \<not> pressed (pinModeDec now) (pinModeDec prev)
      \<and> pressed (pinBrightInc now) (pinBrightInc prev)
      \<and> \<not> pressed (pinBrightDec now) (pinBrightDec prev)
     \<longrightarrow> currentMode (snd (buttonTask_iter now (prev, c))) = currentMode c
         \<and> ringBrightness (snd (buttonTask_iter now (prev, c))) = min 255 (ringBrightness c + 10))
    \<and> (\<not> pressed (pinModeInc now) (pinModeInc prev) \<and> \<not> pressed (pinModeDec now) (pinModeDec prev)
      \<and> \<not> pressed (pinBrightInc now) (pinBrightInc prev)
      \<and> pressed (pinBrightDec now) (pinBrightDec prev)
     \<longrightarrow> currentMode (snd (buttonTask_iter now (prev, c))) = currentMode c
         \<and> ringBrightness (snd (buttonTask_iter now (prev, c))) = max 0 (ringBrightness c - 10))"
  using assms
  by (auto simp: buttonTask_iter_def Let_def mode_increment_def mode_decrement_def
                 brightness_increment_def brightness_decrement_def numModes_def smod_nonneg)

theorem button_events_witness:
  "currentMode (snd (buttonTask_iter
       \<lparr> pinModeInc = LOW, pinModeDec = HIGH, pinBrightInc = HIGH, pinBrightDec = HIGH \<rparr>
       (init_last, init_config\<lparr>currentMode := 26\<rparr>))) = 0
   \<and> currentMode (snd (buttonTask_iter
       \<lparr> pinModeInc = HIGH, pinModeDec = LOW, pinBrightInc = HIGH, pinBrightDec = HIGH \<rparr>
       (init_last, init_config))) = 26
   \<and> ringBrightness (snd (buttonTask_iter
       \<lparr> pinModeInc = HIGH, pinModeDec = HIGH, pinBrightInc = LOW, pinBrightDec = HIGH \<rparr>
       (init_last, init_config\<lparr>ringBrightness := 250\<rparr>))) = 255
   \<and> ringBrightness (snd (buttonTask_iter
       \<lparr> pinModeInc = HIGH, pinModeDec = HIGH, pinBrightInc = HIGH, pinBrightDec = LOW \<rparr>
       (init_last, init_config\<lparr>ringBrightness := 4\<rparr>))) = 0"
  using button_events [of "init_config\<lparr>currentMode := 26\<rparr>"
          "\<lparr> pinModeInc = LOW, pinModeDec = HIGH, pinBrightInc = HIGH, pinBrightDec = HIGH \<rparr>" init_last]
        button_events [of init_config
          "\<lparr> pinModeInc = HIGH, pinModeDec = LOW, pinBrightInc = HIGH, pinBrightDec = HIGH \<rparr>" init_last]
        button_events [of "init_config\<lparr>ringBrightness := 250\<rparr>"
          "\<lparr> pinModeInc = HIGH, pinModeDec = HIGH, pinBrightInc = LOW, pinBrightDec = HIGH \<rparr>" init_last]
        button_events [of "init_config\<lparr>ringBrightness := 4\<rparr>"
          "\<lparr> pinModeInc = HIGH, pinModeDec = HIGH, pinBrightInc = HIGH, pinBrightDec = LOW \<rparr>" init_last]
  by (simp add: pressed_def init_last_def init_config_def)


section \<open>Verification: floating-point rounding\<close>

lemma round_half_even_of_int: "round_half_even (of_int n) = n"
  by (simp add: round_half_even_def)

lemma ilog2_ge1:
  assumes "1 \<le> x"
  shows "2 powi (ilog2 x) \<le> x \<and> x < 2 powi (ilog2 x + 1)"
proof -
  define n where "n = \<lfloor>x\<rfloor>"
  have n: "0 < n" using assms by (simp add: n_def)
  from bitlen_bounds [OF n]
  have b: "2 ^ nat (bitlen n - 1) \<le> n" "n < 2 ^ nat (bitlen n)" by auto
  have bl: "1 \<le> bitlen n" using n bitlen_eq_zero_iff [of n] bitlen_nonneg [of n] by linarith
  have e: "ilog2 x = bitlen n - 1" using assms by (simp add: ilog2_def n_def)
  have "(2::rat) ^ nat (bitlen n - 1) \<le> of_int n" using b(1) by simp
  also have "\<dots> \<le> x" by (simp add: n_def)
  finally have lo: "(2::rat) powi (bitlen n - 1) \<le> x"
    using bl by (simp add: power_int_def)
  have "n + 1 \<le> 2 ^ nat (bitlen n)" using b(2) by simp
  then have "(of_int (n + 1) :: rat) \<le> 2 ^ nat (bitlen n)" by (simp only: of_int_le_numeral_power_cancel_iff)
  moreover have "x < of_int (n + 1)" unfolding n_def by linarith
  ultimately have "x < (2::rat) ^ nat (bitlen n)" by linarith
  then have hi: "x < (2::rat) powi (bitlen n)" using bl by (simp add: power_int_def)
  show ?thesis using lo hi by (simp add: e)
qed

lemma ilog2_lt1:
  assumes "0 < x" "x < 1"
  shows "2 powi (ilog2 x) \<le> x \<and> x < 2 powi (ilog2 x + 1)"
proof -
  define y where "y = 1 / x"
  define c where "c = \<lceil>y\<rceil>"
  have y1: "1 < y" using assms by (simp add: y_def)
  have c2: "2 \<le> c" using y1 unfolding c_def by linarith 
  have n: "0 < c - 1" using c2 by simp
  define b where "b = bitlen (c - 1)"
  from bitlen_bounds [OF n]
  have bb: "2 ^ nat (b - 1) \<le> c - 1" "c - 1 < 2 ^ nat b" by (auto simp: b_def)
  have bl: "1 \<le> b" using n bitlen_eq_zero_iff [of "c - 1"] bitlen_nonneg [of "c - 1"] unfolding b_def by linarith
  have e: "ilog2 x = - b" using assms by (simp add: ilog2_def b_def c_def y_def)
  have "c \<le> 2 ^ nat b" using bb(2) by simp
  then have "(of_int c :: rat) \<le> 2 ^ nat b" by (simp only: of_int_le_numeral_power_cancel_iff)
  moreover have "y \<le> of_int c" by (simp add: c_def)
  ultimately have yhi: "y \<le> 2 ^ nat b" by linarith
  have "(2 ^ nat (b - 1) :: rat) \<le> of_int (c - 1)" using bb(1) by (simp only: numeral_power_le_of_int_cancel_iff)
  moreover have "of_int (c - 1) < y" unfolding c_def by linarith
  ultimately have ylo: "2 ^ nat (b - 1) < y" by linarith
  have xy: "x = 1 / y" using assms by (simp add: y_def)
  have lo: "2 powi (- b) \<le> x"
  proof -
    have "1 / 2 ^ nat b \<le> 1 / y" using yhi y1 by (simp add: frac_le)
    moreover have "(2::rat) powi (- b) = 1 / 2 ^ nat b"
      using bl power_int_minus_divide [of "2::rat" b] by (simp add: power_int_nonneg_exp)
    ultimately show ?thesis by (simp only: xy)
  qed
  have hi: "x < 2 powi (- b + 1)"
  proof -
    have "1 / y < 1 / 2 ^ nat (b - 1)" using ylo by (simp add: frac_less2)
    moreover have "(2::rat) powi (- b + 1) = 1 / 2 ^ nat (b - 1)"
      using bl power_int_minus_divide [of "2::rat" "b - 1"] by (simp add: power_int_nonneg_exp)
    ultimately show ?thesis by (simp only: xy)
  qed
  show ?thesis using lo hi by (simp add: e)
qed

lemma ilog2_bounds: "0 < x \<Longrightarrow> 2 powi (ilog2 x) \<le> x \<and> x < 2 powi (ilog2 x + 1)"
  using ilog2_ge1 [of x] ilog2_lt1 [of x] by (cases "1 \<le> x") auto


lemma fp_round_exact:
  assumes x: "x = of_int m * 2 powi k" and m: "\<bar>m\<bar> < 2 ^ p"
  shows "fp_round p x = x"
proof (cases "m = 0")
  case True
  then show ?thesis by (simp add: x fp_round_def)
next
  case False
  have x0: "x \<noteq> 0" using False by (simp add: x)
  define e where "e = ilog2 \<bar>x\<bar>"
  define q :: rat where "q = 2 powi (e - (int p - 1))"
  have ax: "\<bar>x\<bar> = of_int \<bar>m\<bar> * 2 powi k"
    by (simp add: x abs_mult power_int_abs)
  have "2 powi e \<le> \<bar>x\<bar>" using ilog2_bounds [of "\<bar>x\<bar>"] x0 by (simp add: e_def)
  also have "\<bar>x\<bar> < 2 ^ p * 2 powi k"
  proof -
    have "(of_int \<bar>m\<bar> :: rat) < 2 ^ p" using m by (simp only: of_int_less_numeral_power_cancel_iff)
    moreover have "(0::rat) < 2 powi k" by (simp add: zero_less_power_int)
    ultimately show ?thesis unfolding ax by (simp only: mult_less_cancel_right_pos)
  qed
  also have "\<dots> = 2 powi (int p + k)" by (simp add: power_int_add)
  finally have lt: "(2::rat) powi e < 2 powi (int p + k)" .
  have "e < int p + k"
  proof (rule ccontr)
    assume "\<not> e < int p + k"
    then have "int p + k \<le> e" by simp
    from power_int_increasing [OF this, of "2::rat"] lt show False by simp
  qed
  then have j: "0 \<le> k - (e - (int p - 1))" by simp
  define j where "j = nat (k - (e - (int p - 1)))"
  have kj: "k = int j + (e - (int p - 1))" using j by (simp add: j_def)
  have pk: "(2::rat) powi k = 2 ^ j * q"
    unfolding q_def by (subst kj) (simp add: power_int_add)
  have q0: "q \<noteq> 0" by (simp add: q_def)
  have "x / q = of_int (m * 2 ^ j)" using q0 by (simp add: x pk)
  then have "round_half_even (x / q) = m * 2 ^ j" by (simp only: round_half_even_of_int)
  then have "fp_round p x = of_int (m * 2 ^ j) * q"
    using x0 by (simp add: fp_round_def Let_def e_def q_def)
  also have "\<dots> = x" by (simp add: x pk)
  finally show ?thesis .
qed

lemma fp_round_of_int: "\<bar>m\<bar> < 2 ^ p \<Longrightarrow> fp_round p (of_int m) = of_int m"
  using fp_round_exact [of "of_int m" m 0 p] by simp

lemma fp_round_of_nat: "n < 2 ^ p \<Longrightarrow> fp_round p (of_nat n) = of_nat n"
  using fp_round_of_int [of "int n" p] by (simp add: of_nat_less_numeral_power_cancel_iff)

lemma fp_round_dyadic: "\<bar>m\<bar> < 2 ^ p \<Longrightarrow> fp_round p (of_int m / 2 ^ j) = of_int m / 2 ^ j"
  using fp_round_exact [of "of_int m / 2 ^ j" m "- int j" p]
  by (simp add: power_int_minus_divide)

lemma f32_of_int: "\<bar>m\<bar> < 16777216 \<Longrightarrow> f32 (of_int m) = of_int m"
  using fp_round_of_int [of m 24] by (simp add: f32_def)

lemma f32_dyadic: "\<bar>m\<bar> < 16777216 \<Longrightarrow> f32 (of_int m / 2 ^ j) = of_int m / 2 ^ j"
  using fp_round_dyadic [of m 24 j] by (simp add: f32_def)

lemma f64_dyadic: "\<bar>m\<bar> < 16777216 \<Longrightarrow> f64 (of_int m / 2 ^ j) = of_int m / 2 ^ j"
  using fp_round_dyadic [of m 53 j] by (simp add: f64_def)

lemma f32_5: "f32 5 = 5"
  using f32_of_int [of 5] by simp

lemma exactStep_48: "f32 (f64 (256 / 48)) = 11184811 / 2097152"
  unfolding f32_def f64_def by code_simp

lemma fractional_48: "f32 (11184811 / 2097152 - 5) = 699051 / 2097152"
  using f32_dyadic [of 699051 21] by simp

lemma for_range_invariant_aux:
  "(\<forall>i s. lo0 \<le> i \<and> i < hi \<and> P i s \<longrightarrow> (\<exists>s'. body i s = Some s' \<and> P (i + 1) s'))
    \<Longrightarrow> lo0 \<le> lo \<Longrightarrow> lo \<le> hi \<Longrightarrow> P lo s
    \<Longrightarrow> \<exists>s'. for_range lo hi body s = Some s' \<and> P hi s'"
proof (induction lo hi body s rule: for_range.induct)
  case (1 lo hi body s)
  show ?case
  proof (cases "lo < hi")
    case True
    from "1.prems"(1) "1.prems"(2) True "1.prems"(4)
    obtain s1 where s1: "body lo s = Some s1" "P (lo + 1) s1" by blast
    from "1.IH" [OF True s1(1) "1.prems"(1)] "1.prems"(2) True s1(2)
    obtain s' where "for_range (lo + 1) hi body s1 = Some s'" "P hi s'" by auto
    then show ?thesis using True s1(1) by (subst for_range.simps) simp
  next
    case False
    with "1.prems" have "lo = hi" by simp
    then show ?thesis using "1.prems"(4) by (subst for_range.simps) simp
  qed
qed

lemma for_range_invariant:
  assumes "P lo s" and "lo \<le> hi"
    and "\<And>i s. lo \<le> i \<Longrightarrow> i < hi \<Longrightarrow> P i s \<Longrightarrow> \<exists>s'. body i s = Some s' \<and> P (i + 1) s'"
  shows "\<exists>s'. for_range lo hi body s = Some s' \<and> P hi s'"
  using for_range_invariant_aux [of lo hi P body lo s] assms by blast

lemma for_range_empty: "hi \<le> lo \<Longrightarrow> for_range lo hi body s = Some s"
  by (subst for_range.simps) simp

section \<open>Verification: the hue distribution\<close>

lemma u8_of_float_of_int: "u8_of_float (of_int H) = word_of_int H"
  by (simp add: u8_of_float_def)

lemma spec_hue_int:
  assumes "0 \<le> i"
  shows "spec_hue h0 (nat i) = word_of_int (uint h0 + 5 * i + i div 3)"
proof -
  have "int (5 * nat i + nat i div 3) = 5 * i + i div 3"
    using assms by (simp add: zdiv_int)
  then have "(of_nat (5 * nat i + nat i div 3) :: 8 word) = word_of_int (5 * i + i div 3)"
    by (metis of_int_of_nat_eq)
  then show ?thesis by (simp add: spec_hue_def add.assoc)
qed

lemma uint48: "uint (48 :: 8 word) = 48"
  by simp

lemma rainbow_consts_48:
  "f32 (f32 (f64 (256 / of_int 48)) - 5) = 699051 / 2097152"
proof -
  have "(256 / of_int 48 :: rat) = 256 / 48" by simp
  then show ?thesis by (simp only: exactStep_48 fractional_48)
qed

lemma rainbow_body_step:
  assumes b: "0 \<le> base" "base + 48 \<le> int (length l0)"
    and i: "0 \<le> i" "i < 48"
    and inv: "rb_inv L base l0 h0 i st"
  shows "\<exists>st'. rainbow_body L base 5 (699051 / 2097152) i st = Some st' \<and> rb_inv L base l0 h0 (i + 1) st'"
proof -
  have frac: "(699051 / 2097152 :: rat) = of_int 699051 / 2 ^ 21" by simp
  obtain l hue err where st: "st = (l, hue, err)" by (cases st) 
  define H where "H = uint h0 + 5 * i + i div 3"
  define m where "m = (i mod 3) * 699051 + i div 3"
  define pix where "pix = hsv2rgb L (CHSV (spec_hue h0 (nat i)) 255 255)"
  define l' where "l' = l[nat (base + i) := pix]"
  from inv have len: "length l = length l0" and hue: "hue = of_int H"
    and err: "err = of_int m / 2 ^ 21"
    and old: "\<And>j. 0 \<le> j \<Longrightarrow> j < i \<Longrightarrow> l ! nat (base + j) = hsv2rgb L (CHSV (spec_hue h0 (nat j)) 255 255)"
    and rest: "\<And>n. n < nat base \<or> nat (base + i) \<le> n \<Longrightarrow> l ! n = l0 ! n"
    by (auto simp: rb_inv_def st H_def m_def)
  have h0b: "0 \<le> uint h0" "uint h0 < 256"
    using uint_lt2p [of h0] by simp_all
  have Hb: "0 \<le> H" "H < 600" using i h0b by (auto simp: H_def)
  have mb: "0 \<le> m" "m < 1398200" using i by (auto simp: m_def)
  have "u8_of_float hue = spec_hue h0 (nat i)"
    unfolding hue H_def u8_of_float_of_int spec_hue_int [OF i(1)] ..
  then have w: "wr (base + i) (hsv2rgb L (CHSV (u8_of_float hue) 255 255)) l = Some l'"
    using b i len by (simp add: wr_def l'_def pix_def)
  have hue1: "f32 (hue + 5) = of_int (H + 5)"
    using f32_of_int [of "H + 5"] Hb by (simp add: hue)
  have e6: "(of_int (H + 5) + 1 :: rat) = of_int (H + 6)" by simp
  have hue2: "f32 (of_int (H + 5) + 1) = of_int (H + 6)"
    unfolding e6 using Hb by (intro f32_of_int) simp
  have err1: "f32 (err + of_int 699051 / 2 ^ 21) = of_int (m + 699051) / 2 ^ 21"
    using f32_dyadic [of "m + 699051" 21] mb by (simp add: err add_divide_distrib)
  have ge: "(1 \<le> (of_int (m + 699051) / 2 ^ 21 :: rat)) = (i mod 3 = 2)"
  proof -
    have "(1 \<le> (of_int (m + 699051) / 2 ^ 21 :: rat)) = (2097152 \<le> m + 699051)"
      by (simp add: le_divide_eq)
    also have "\<dots> = (i mod 3 = 2)"
    proof -
      have d: "0 \<le> i div 3" "i div 3 \<le> 15" using i by presburger+
      have "0 \<le> i mod 3" "i mod 3 < 3" by simp_all
      then consider "i mod 3 = 0" | "i mod 3 = 1" | "i mod 3 = 2" by linarith
      then show ?thesis using d by cases (simp_all add: m_def)
    qed
    finally show ?thesis .
  qed
  have err2: "f32 (f64 (of_int (m + 699051) / 2 ^ 21 - 1)) = of_int (m + 699051 - 2097152) / 2 ^ 21"
  proof -
    define m2 where "m2 = m + 699051 - 2097152"
    have m2b: "\<bar>m2\<bar> < 16777216" using mb by (simp add: m2_def)
    have eq: "(of_int (m + 699051) / 2 ^ 21 - 1 :: rat) = of_int m2 / 2 ^ 21"
      by (simp add: m2_def field_simps)
    have "f32 (f64 (of_int m2 / 2 ^ 21)) = of_int m2 / 2 ^ 21"
      by (simp only: f64_dyadic [OF m2b] f32_dyadic [OF m2b])
    then show ?thesis unfolding eq m2_def .
  qed
  have len': "length l' = length l0" by (simp add: l'_def len)
  have new: "\<And>j. 0 \<le> j \<Longrightarrow> j < i + 1 \<Longrightarrow> l' ! nat (base + j) = hsv2rgb L (CHSV (spec_hue h0 (nat j)) 255 255)"
  proof -
    fix j :: int assume j: "0 \<le> j" "j < i + 1"
    show "l' ! nat (base + j) = hsv2rgb L (CHSV (spec_hue h0 (nat j)) 255 255)"
    proof (cases "j = i")
      case True
      then show ?thesis using b i len by (simp add: l'_def pix_def)
    next
      case False
      then have "j < i" using j by simp
      moreover have "nat (base + j) \<noteq> nat (base + i)" using False b i j by simp
      ultimately show ?thesis using old [of j] j by (simp add: l'_def)
    qed
  qed
  have rest': "\<And>n. n < nat base \<or> nat (base + (i + 1)) \<le> n \<Longrightarrow> l' ! n = l0 ! n"
  proof -
    fix n assume n: "n < nat base \<or> nat (base + (i + 1)) \<le> n"
    then have "n \<noteq> nat (base + i)" using b i by auto
    moreover have "n < nat base \<or> nat (base + i) \<le> n" using n b i by auto
    ultimately show "l' ! n = l0 ! n" using rest [of n] by (simp add: l'_def)
  qed
  show ?thesis
  proof (cases "i mod 3 = 2")
    case True
    then have d: "(i + 1) div 3 = i div 3 + 1" "(i + 1) mod 3 = 0" by presburger+
    have g: "(1 \<le> (of_int (m + 699051) / 2 ^ 21 :: rat)) = True" using ge True by simp
    have body: "rainbow_body L base 5 (699051 / 2097152) i st
                  = Some (l', of_int (H + 6), of_int (m + 699051 - 2097152) / 2 ^ 21)"
      unfolding frac
      by (simp only: rainbow_body_def st w hue1 hue2 err1 err2 Let_def prod.case bind.bind_lunit g if_True)
    have "rb_inv L base l0 h0 (i + 1) (l', of_int (H + 6), of_int (m + 699051 - 2097152) / 2 ^ 21)"
      unfolding rb_inv_def using len' new rest' True d
      by (simp add: H_def m_def)
    with body show ?thesis by blast
  next
    case False
    then have d: "(i + 1) div 3 = i div 3" "(i + 1) mod 3 = i mod 3 + 1" by presburger+
    have g: "(1 \<le> (of_int (m + 699051) / 2 ^ 21 :: rat)) = False" using ge False by simp
    have body: "rainbow_body L base 5 (699051 / 2097152) i st
                  = Some (l', of_int (H + 5), of_int (m + 699051) / 2 ^ 21)"
      unfolding frac
      by (simp only: rainbow_body_def st w hue1 err1 Let_def prod.case bind.bind_lunit g if_False)
    have "rb_inv L base l0 h0 (i + 1) (l', of_int (H + 5), of_int (m + 699051) / 2 ^ 21)"
      unfolding rb_inv_def using len' new rest' False d
      by (simp add: H_def m_def algebra_simps)
    with body show ?thesis by blast
  qed
qed

lemma rainbow_48:
  assumes b: "0 \<le> base" "base + 48 \<le> int (length l0)"
  shows "\<exists>l'. fill_ring_with_exact_rainbow L base 48 h0 l0 = Some l'
          \<and> length l' = length l0
          \<and> (\<forall>j. 0 \<le> j \<and> j < 48 \<longrightarrow> l' ! nat (base + j) = hsv2rgb L (CHSV (spec_hue h0 (nat j)) 255 255))
          \<and> (\<forall>n. n < nat base \<or> nat (base + 48) \<le> n \<longrightarrow> l' ! n = l0 ! n)"
proof -
  have init: "rb_inv L base l0 h0 0 (l0, of_int (uint h0), 0)"
    by (auto simp: rb_inv_def)
  have "\<exists>st'. for_range 0 48 (rainbow_body L base 5 (699051 / 2097152)) (l0, of_int (uint h0), 0) = Some st'
          \<and> rb_inv L base l0 h0 48 st'"
  proof (rule for_range_invariant [where P = "rb_inv L base l0 h0", OF init])
    show "(0::int) \<le> 48" by simp
  next
    fix i :: int and s :: "crgb list \<times> rat \<times> rat"
    assume "0 \<le> i" "i < 48" "rb_inv L base l0 h0 i s"
    then show "\<exists>s'. rainbow_body L base 5 (699051 / 2097152) i s = Some s' \<and> rb_inv L base l0 h0 (i + 1) s'"
      by (rule rainbow_body_step [OF b])
  qed
  then obtain l' hue err where
    run: "for_range 0 48 (rainbow_body L base 5 (699051 / 2097152)) (l0, of_int (uint h0), 0) = Some (l', hue, err)"
    and fin: "rb_inv L base l0 h0 48 (l', hue, err)"
    by (metis prod_cases3)
  have "fill_ring_with_exact_rainbow L base 48 h0 l0 = Some l'"
    by (simp only: fill_ring_with_exact_rainbow_def Let_def rainbow_consts_48 f32_5 uint48 run
                   option.map fst_conv)
  then show ?thesis using fin by (simp add: rb_inv_def)
qed

lemma spec_hue_offset:
  assumes "i < 48"
  shows "unat (spec_hue h i - h) = 5 * i + i div 3"
proof -
  define n where "n = 5 * i + i div 3"
  have "n < 256" using assms by (simp add: n_def)
  then have "unat (of_nat n :: 8 word) = n"
    by (simp add: unat_of_nat)
  moreover have "spec_hue h i - h = of_nat n"
    unfolding spec_hue_def n_def by simp
  ultimately show ?thesis by (simp only: n_def)
qed

lemma spec_hue_gap:
  "unat (spec_hue h (Suc i) - spec_hue h i) = (if i mod 3 = 2 then 6 else 5)"
proof -
  define k :: nat where "k = (if i mod 3 = 2 then 6 else 5)"
  define a where "a = 5 * i + i div 3"
  define b where "b = 5 * Suc i + Suc i div 3"
  have "b = a + k"
    unfolding k_def a_def b_def by presburger
  then have "(of_nat b :: 8 word) - of_nat a = of_nat k"
    by simp
  moreover have "spec_hue h (Suc i) - spec_hue h i = of_nat b - of_nat a"
    unfolding spec_hue_def a_def b_def by simp
  ultimately have "spec_hue h (Suc i) - spec_hue h i = of_nat k" by simp
  then show ?thesis by (simp add: k_def)
qed

lemma spec_hue_increasing:
  assumes "i < j" "j < 48"
  shows "unat (spec_hue h i - h) < unat (spec_hue h j - h)"
proof -
  have "i div 3 \<le> j div 3" using assms by (simp add: div_le_mono)
  then have "5 * i + i div 3 < 5 * j + j div 3" using assms by linarith
  then show ?thesis using assms by (simp add: spec_hue_offset)
qed


text \<open>
  C2: for a ring of 48 pixels and every starting hue, the hue distribution
  writes pixel \<open>i\<close> with the starting hue plus \<open>5 * i + i div 3\<close> modulo
  256: a step of 5 per pixel, and one more unit each time the accumulated
  error reaches 1.0, which happens after every third pixel.  Consecutive hues
  therefore differ by 5 or 6 (never more than 6), and the offsets from the
  starting hue increase strictly along the ring, so the 48 hues go once around
  the wheel without passing the starting hue again.  \<open>base\<close> is the start of
  the ring inside the buffer.
\<close>

theorem rainbow_hues_48:
  assumes "0 \<le> base" and "base + 48 \<le> int (length l)"
  shows "\<exists>l'. fill_ring_with_exact_rainbow L base 48 startHue l = Some l'
           \<and> length l' = length l
           \<and> (\<forall>i<48. l' ! (nat base + i) = hsv2rgb L (CHSV (spec_hue startHue i) 255 255))
           \<and> (\<forall>n. n < nat base \<or> nat base + 48 \<le> n \<longrightarrow> l' ! n = l ! n)
           \<and> (\<forall>i<47. unat (spec_hue startHue (Suc i) - spec_hue startHue i)
                        = (if i mod 3 = 2 then 6 else 5)
                      \<and> unat (spec_hue startHue (Suc i) - spec_hue startHue i) \<le> 6)
           \<and> (\<forall>i j. i < j \<and> j < 48 \<longrightarrow>
                  unat (spec_hue startHue i - startHue) < unat (spec_hue startHue j - startHue))"
proof -
  from rainbow_48 [OF assms, of L startHue]
  obtain l' where l': "fill_ring_with_exact_rainbow L base 48 startHue l = Some l'"
    "length l' = length l"
    "\<And>j. 0 \<le> j \<Longrightarrow> j < 48 \<Longrightarrow> l' ! nat (base + j) = hsv2rgb L (CHSV (spec_hue startHue (nat j)) 255 255)"
    "\<And>n. n < nat base \<or> nat (base + 48) \<le> n \<Longrightarrow> l' ! n = l ! n"
    by blast
  have pix: "\<forall>i<48. l' ! (nat base + i) = hsv2rgb L (CHSV (spec_hue startHue i) 255 255)"
  proof (intro allI impI)
    fix i :: nat assume "i < 48"
    then show "l' ! (nat base + i) = hsv2rgb L (CHSV (spec_hue startHue i) 255 255)"
      using l'(3) [of "int i"] assms(1) by (simp add: nat_add_distrib)
  qed
  have rest: "\<forall>n. n < nat base \<or> nat base + 48 \<le> n \<longrightarrow> l' ! n = l ! n"
    using l'(4) assms(1) by (simp add: nat_add_distrib)
  show ?thesis
    using l'(1,2) pix rest spec_hue_gap [of startHue] spec_hue_increasing [of _ _ startHue]
    by simp
qed

theorem rainbow_hues_48_witness:
  "\<forall>L. \<exists>l'. fill_ring_with_exact_rainbow L 0 48 250 (replicate 96 Black) = Some l'
     \<and> l' ! 0 = hsv2rgb L (CHSV 250 255 255)
     \<and> l' ! 1 = hsv2rgb L (CHSV 255 255 255)
     \<and> l' ! 2 = hsv2rgb L (CHSV 4 255 255)
     \<and> l' ! 3 = hsv2rgb L (CHSV 10 255 255)
     \<and> l' ! 47 = hsv2rgb L (CHSV 244 255 255)
     \<and> l' ! 48 = Black"
proof
  fix L
  from rainbow_hues_48 [of 0 "replicate 96 Black" L 250]
  obtain l' where r: "fill_ring_with_exact_rainbow L 0 48 250 (replicate 96 Black) = Some l'"
    and p: "\<forall>i<48. l' ! (nat 0 + i) = hsv2rgb L (CHSV (spec_hue 250 i) 255 255)"
    and q: "\<forall>n. n < nat 0 \<or> nat 0 + 48 \<le> n \<longrightarrow> l' ! n = replicate 96 Black ! n"
    by auto
  show "\<exists>l'. fill_ring_with_exact_rainbow L 0 48 250 (replicate 96 Black) = Some l'
     \<and> l' ! 0 = hsv2rgb L (CHSV 250 255 255)
     \<and> l' ! 1 = hsv2rgb L (CHSV 255 255 255)
     \<and> l' ! 2 = hsv2rgb L (CHSV 4 255 255)
     \<and> l' ! 3 = hsv2rgb L (CHSV 10 255 255)
     \<and> l' ! 47 = hsv2rgb L (CHSV 244 255 255)
     \<and> l' ! 48 = Black"
  proof -
    have p': "\<And>i. i < 48 \<Longrightarrow> l' ! i = hsv2rgb L (CHSV (spec_hue 250 i) 255 255)"
      using p by simp
    have h: "spec_hue 250 0 = 250" "spec_hue 250 (Suc 0) = 255" "spec_hue 250 2 = 4"
      "spec_hue 250 3 = 10" "spec_hue 250 47 = 244"
      by (simp_all add: spec_hue_def)
    have "l' ! 0 = hsv2rgb L (CHSV 250 255 255)" using p' [of 0] by (simp add: h)
    moreover have "l' ! 1 = hsv2rgb L (CHSV 255 255 255)" using p' [of 1] by (simp add: h)
    moreover have "l' ! 2 = hsv2rgb L (CHSV 4 255 255)" using p' [of 2] by (simp add: h)
    moreover have "l' ! 3 = hsv2rgb L (CHSV 10 255 255)" using p' [of 3] by (simp add: h)
    moreover have "l' ! 47 = hsv2rgb L (CHSV 244 255 255)" using p' [of 47] by (simp add: h)
    moreover have "l' ! 48 = Black" using q [rule_format, of 48] by simp
    ultimately show ?thesis using r by simp
  qed
qed



section \<open>Verification: the animation task stays inside the buffer\<close>

lemma succeeds_Some: "Q x \<Longrightarrow> succeeds (Some x) Q"
  by (simp add: succeeds_def)

lemma succeeds_bind: "succeeds m (\<lambda>x. succeeds (f x) Q) \<Longrightarrow> succeeds (m \<bind> f) Q"
  by (auto simp: succeeds_def)

lemma succeeds_if:
  "(c \<Longrightarrow> succeeds a Q) \<Longrightarrow> (\<not> c \<Longrightarrow> succeeds b Q) \<Longrightarrow> succeeds (if c then a else b) Q"
  by simp

lemma succeeds_weaken: "succeeds m P \<Longrightarrow> (\<And>x. P x \<Longrightarrow> Q x) \<Longrightarrow> succeeds m Q"
  by (auto simp: succeeds_def)

lemma succeeds_wr:
  "0 \<le> i \<Longrightarrow> i < int (length l) \<Longrightarrow> (\<And>l'. length l' = length l \<Longrightarrow> Q l')
    \<Longrightarrow> succeeds (wr i c l) Q"
  by (simp add: succeeds_def wr_def)

lemma succeeds_add_at:
  "0 \<le> i \<Longrightarrow> i < int (length l) \<Longrightarrow> (\<And>l'. length l' = length l \<Longrightarrow> Q l')
    \<Longrightarrow> succeeds (add_at i c l) Q"
  by (simp add: succeeds_def add_at_def rd_def wr_def)

lemma succeeds_for_range:
  assumes body: "\<And>i l'. lo \<le> i \<Longrightarrow> i < hi \<Longrightarrow> length l' = length l
                   \<Longrightarrow> succeeds (body i l') (\<lambda>l''. length l'' = length l)"
    and post: "\<And>l'. length l' = length l \<Longrightarrow> Q l'"
  shows "succeeds (for_range lo hi body l) Q"
proof (cases "lo \<le> hi")
  case True
  have "\<exists>l'. for_range lo hi body l = Some l' \<and> length l' = length l"
    by (rule for_range_invariant [where P = "\<lambda>i l'. length l' = length l"])
       (use True body in \<open>auto simp: succeeds_def\<close>)
  then show ?thesis using post by (auto simp: succeeds_def)
next
  case False
  then show ?thesis using post by (simp add: for_range_empty succeeds_def)
qed

lemma succeeds_fill_solid:
  "0 \<le> start \<Longrightarrow> start + n \<le> int (length l) \<Longrightarrow> (\<And>l'. length l' = length l \<Longrightarrow> Q l')
    \<Longrightarrow> succeeds (fill_solid start n c l) Q"
  unfolding fill_solid_def
  by (rule succeeds_for_range) (auto intro!: succeeds_wr)

lemma succeeds_fadeToBlackBy:
  "n \<le> int (length l) \<Longrightarrow> (\<And>l'. length l' = length l \<Longrightarrow> Q l')
    \<Longrightarrow> succeeds (fadeToBlackBy L n k l) Q"
  unfolding fadeToBlackBy_def
  by (rule succeeds_for_range) (auto simp: succeeds_def rd_def wr_def)

lemma succeeds_rainbow:
  assumes "0 \<le> base" "base + 48 \<le> int (length l)" "\<And>l'. length l' = length l \<Longrightarrow> Q l'"
  shows "succeeds (fill_ring_with_exact_rainbow L base (word_of_int RING_LEDS) h l) Q"
  using rainbow_48 [OF assms(1,2), of L h] assms(3) by (auto simp: succeeds_def RING_LEDS_def)

lemmas succeeds_intros =
  succeeds_bind succeeds_if succeeds_wr succeeds_add_at succeeds_for_range
  succeeds_fill_solid succeeds_fadeToBlackBy succeeds_rainbow succeeds_Some

lemmas ring_simps = ring_inv_def same_wipe_def in_ring_def NUM_LEDS_def RING_LEDS_def smod_nonneg

lemma mode0_ok: "ring_inv s \<Longrightarrow> succeeds (mode0 L s) (\<lambda>(s', d). ring_inv s' \<and> same_wipe s s')"
  unfolding mode0_def
  by (intro succeeds_intros) (simp_all add: ring_simps)

lemma mode1_ok: "ring_inv s \<Longrightarrow> succeeds (mode1 s) (\<lambda>(s', d). ring_inv s' \<and> same_wipe s s')"
  unfolding mode1_def
  by (intro succeeds_intros) (simp_all add: ring_simps)

lemma mode2_ok: "ring_inv s \<Longrightarrow> succeeds (mode2 s) (\<lambda>(s', d). ring_inv s' \<and> same_wipe s s')"
  unfolding mode2_def
  by (intro succeeds_intros) (simp_all add: ring_simps)

lemma mode3_ok: "ring_inv s \<Longrightarrow> succeeds (mode3 s) (\<lambda>(s', d). ring_inv s' \<and> same_wipe s s')"
  unfolding mode3_def
  by (intro succeeds_intros) (simp_all add: ring_simps)

lemma mode5_ok: "ring_inv s \<Longrightarrow> calls_ok E \<Longrightarrow> succeeds (mode5 L E s) (\<lambda>(s', d). ring_inv s' \<and> same_wipe s s')"
  unfolding mode5_def Let_def
  by (intro succeeds_intros) (simp_all add: ring_simps calls_ok_def)

lemma mode8_ok: "ring_inv s \<Longrightarrow> succeeds (mode8 L s) (\<lambda>(s', d). ring_inv s' \<and> same_wipe s s')"
  unfolding mode8_def
  by (intro succeeds_intros) (simp_all add: ring_simps)

lemma mode9_ok: "ring_inv s \<Longrightarrow> succeeds (mode9 L s) (\<lambda>(s', d). ring_inv s' \<and> same_wipe s s')"
  unfolding mode9_def Let_def
  by (intro succeeds_intros) (simp_all add: ring_simps)

lemma sdiv_48_3: "(48::int) sdiv 3 = 16"
  by (simp add: signed_divide_int_def)

lemma random_range:
  "calls_ok E \<Longrightarrow> 0 < n \<Longrightarrow> 0 \<le> lib_random E k n \<and> lib_random E k n < n"
  by (simp add: calls_ok_def)

lemma beatsin8_47:
  assumes "calls_ok E"
  shows "uint (lib_beatsin8 E k bpm 0 (word_of_int (RING_LEDS - 1))) \<le> 47"
proof -
  have "lib_beatsin8 E k bpm 0 47 \<le> 47" using assms by (simp add: calls_ok_def)
  then show ?thesis by (simp add: word_le_def RING_LEDS_def)
qed

lemma beatsin16_47:
  assumes "calls_ok E"
  shows "uint (lib_beatsin16 E k bpm 0 (word_of_int (RING_LEDS - 1)) tb ph) \<le> 47"
proof -
  have "lib_beatsin16 E k bpm 0 47 tb ph \<le> 47" using assms by (simp add: calls_ok_def)
  then show ?thesis by (simp add: word_le_def RING_LEDS_def)
qed

lemma mapped_u8:
  assumes "0 \<le> p" "p \<le> 47"
  shows "uint (word_of_int ((RING_LEDS - 1) - p) :: 8 word) = 47 - p"
  unfolding uint_word_of_int RING_LEDS_def using assms by simp

lemma mode6_ok:
  assumes "ring_inv s" "calls_ok E"
  shows "succeeds (mode6 L E s) (\<lambda>(s', d). ring_inv s' \<and> same_wipe s s')"
proof -
  define p1 where "p1 = uint (lib_beatsin8 E 0 10 0 (word_of_int (RING_LEDS - 1)))"
  define p2 where "p2 = uint (lib_beatsin8 E 1 10 0 (word_of_int (RING_LEDS - 1)))"
  define q2 where "q2 = uint (word_of_int ((RING_LEDS - 1) - p2) :: 8 word)"
  have b1: "0 \<le> p1" "p1 \<le> 47" and b2: "0 \<le> p2" "p2 \<le> 47"
    using beatsin8_47 [OF assms(2)] by (simp_all add: p1_def p2_def)
  have q2: "q2 = 47 - p2" unfolding q2_def by (rule mapped_u8 [OF b2])
  have m: "mode6 L E s = do {
     l1 \<leftarrow> fadeToBlackBy L NUM_LEDS 20 (leds s);
     l2 \<leftarrow> add_at p1 (hsv L (gHue s) 200 255) l1;
     l3 \<leftarrow> add_at (RING_LEDS + q2) (hsv L (gHue s + 64) 200 255) l2;
     Some (s\<lparr>leds := l3, gHue := gHue s + 1\<rparr>, 20) }"
    unfolding mode6_def Let_def p1_def p2_def q2_def ..
  show ?thesis unfolding m
    by (intro succeeds_intros) (use assms(1) b1 b2 in \<open>simp_all add: ring_simps q2\<close>)
qed

lemma mode7_ok:
  assumes "ring_inv s" "calls_ok E"
  shows "succeeds (mode7 L E s) (\<lambda>(s', d). ring_inv s' \<and> same_wipe s s')"
proof -
  define p where "p = (\<lambda>k i. uint (lib_beatsin16 E k (word_of_int (7 + i)) 0
                                      (word_of_int (RING_LEDS - 1)) 0 (word_of_int (i * 1000))))"
  define q where "q = (\<lambda>k i. uint (word_of_int ((RING_LEDS - 1) - p k i) :: 8 word))"
  have b: "\<And>k i. 0 \<le> p k i" "\<And>k i. p k i \<le> 47"
    using beatsin16_47 [OF assms(2)] by (simp_all add: p_def)
  have q: "\<And>k i. q k i = 47 - p k i" unfolding q_def by (rule mapped_u8 [OF b])
  have b': "p k i < 96" "p k i \<le> 95" "- 1 < p k i" for k i
    using b(1) [of k i] b(2) [of k i] by simp_all
  have m: "mode7 L E s = do {
     l1 \<leftarrow> fadeToBlackBy L NUM_LEDS 20 (leds s);
     l2 \<leftarrow> for_range 0 4
             (\<lambda>i l. add_at (p (nat i) i) (hsv L (gHue s + word_of_int (i * 32)) 200 255) l) l1;
     l3 \<leftarrow> for_range 0 4
             (\<lambda>i l. add_at (RING_LEDS + q (4 + nat i) i)
                         (hsv L (gHue s + 128 + word_of_int (i * 32)) 200 255) l) l2;
     Some (s\<lparr>leds := l3, gHue := gHue s + 1\<rparr>, 20) }"
    unfolding mode7_def Let_def p_def q_def ..
  show ?thesis unfolding m
    by (intro succeeds_intros) (use assms(1) in \<open>simp_all add: ring_simps q b b'\<close>)
qed

lemma mode10_ok: "ring_inv s \<Longrightarrow> succeeds (mode10 L E c s) (\<lambda>(s', d). ring_inv s' \<and> same_wipe s s')"
  unfolding mode10_def Let_def
  by (intro succeeds_intros) (simp_all add: ring_simps)

lemma mode11_ok: "ring_inv s \<Longrightarrow> succeeds (mode11 L s) (\<lambda>(s', d). ring_inv s' \<and> same_wipe s s')"
  unfolding mode11_def Let_def
  by (intro succeeds_intros) (simp_all add: ring_simps)

lemma mode13_ok: "ring_inv s \<Longrightarrow> succeeds (mode13 L c s) (\<lambda>(s', d). ring_inv s' \<and> same_wipe s s')"
  unfolding mode13_def Let_def
  by (intro succeeds_intros) (simp_all add: ring_simps)

lemma mode14_ok: "ring_inv s \<Longrightarrow> succeeds (mode14 L c s) (\<lambda>(s', d). ring_inv s' \<and> same_wipe s s')"
  unfolding mode14_def Let_def
  by (intro succeeds_intros) (simp_all add: ring_simps)

lemma mode15_ok: "ring_inv s \<Longrightarrow> succeeds (mode15 L s) (\<lambda>(s', d). ring_inv s' \<and> same_wipe s s')"
  unfolding mode15_def Let_def
  by (intro succeeds_intros) (simp_all add: ring_simps)

lemma mode16_ok:
  assumes "ring_inv s" "calls_ok E"
  shows "succeeds (mode16 L E s) (\<lambda>(s', d). ring_inv s' \<and> same_wipe s s')"
  unfolding mode16_def Let_def
  by (intro succeeds_intros)
     (use assms(1) random_range [OF assms(2), of RING_LEDS 0] random_range [OF assms(2), of RING_LEDS 1]
       in \<open>simp_all add: ring_simps\<close>)

lemma mode17_ok: "ring_inv s \<Longrightarrow> succeeds (mode17 L c s) (\<lambda>(s', d). ring_inv s' \<and> same_wipe s s')"
  unfolding mode17_def Let_def
  by (intro succeeds_intros) (simp_all add: ring_simps)

lemma mode18_ok: "ring_inv s \<Longrightarrow> succeeds (mode18 L s) (\<lambda>(s', d). ring_inv s' \<and> same_wipe s s')"
  unfolding mode18_def Let_def
  by (intro succeeds_intros) (simp_all add: ring_simps)

lemma mode19_ok: "ring_inv s \<Longrightarrow> succeeds (mode19 L E s) (\<lambda>(s', d). ring_inv s' \<and> same_wipe s s')"
  unfolding mode19_def Let_def
  by (intro succeeds_intros) (simp_all add: ring_simps)

lemma mode20_ok: "ring_inv s \<Longrightarrow> succeeds (mode20 L s) (\<lambda>(s', d). ring_inv s' \<and> same_wipe s s')"
  unfolding mode20_def Let_def
  by (intro succeeds_intros) (simp_all add: ring_simps)

lemma mode21_ok: "ring_inv s \<Longrightarrow> succeeds (mode21 L s) (\<lambda>(s', d). ring_inv s' \<and> same_wipe s s')"
  unfolding mode21_def Let_def
  by (intro succeeds_intros) (simp_all add: ring_simps)

lemma mode22_ok: "ring_inv s \<Longrightarrow> succeeds (mode22 L E s) (\<lambda>(s', d). ring_inv s' \<and> same_wipe s s')"
  unfolding mode22_def Let_def
  by (intro succeeds_intros) (simp_all add: ring_simps)

lemma mode23_ok: "ring_inv s \<Longrightarrow> succeeds (mode23 L s) (\<lambda>(s', d). ring_inv s' \<and> same_wipe s s')"
  unfolding mode23_def Let_def
  by (intro succeeds_intros) (simp_all add: ring_simps)

lemma mode24_ok: "ring_inv s \<Longrightarrow> succeeds (mode24 L E s) (\<lambda>(s', d). ring_inv s' \<and> same_wipe s s')"
  unfolding mode24_def Let_def
  by (intro succeeds_intros) (simp_all add: ring_simps sdiv_48_3)

lemma mode25_ok: "ring_inv s \<Longrightarrow> succeeds (mode25 L s) (\<lambda>(s', d). ring_inv s' \<and> same_wipe s s')"
  unfolding mode25_def Let_def
  by (intro succeeds_intros) (simp_all add: ring_simps)

lemma mode26_ok: "ring_inv s \<Longrightarrow> succeeds (mode26 L s) (\<lambda>(s', d). ring_inv s' \<and> same_wipe s s')"
  unfolding mode26_def Let_def
  by (intro succeeds_intros) (simp_all add: ring_simps)

lemma mode_default_ok: "ring_inv s \<Longrightarrow> succeeds (mode_default s) (\<lambda>(s', d). ring_inv s' \<and> same_wipe s s')"
  unfolding mode_default_def Let_def
  by (intro succeeds_intros) (simp_all add: ring_simps)


lemma fill_solid_all:
  assumes "length l = 96"
  shows "fill_solid 0 NUM_LEDS c l = Some (replicate 96 c)"
proof -
  have "\<exists>l'. for_range 0 96 (\<lambda>i. wr (0 + i) c) l = Some l'
          \<and> (length l' = 96 \<and> (\<forall>j<96. int j < 96 \<longrightarrow> l' ! j = c))"
  proof (rule for_range_invariant
           [where P = "\<lambda>i l'. length l' = 96 \<and> (\<forall>j<96. int j < i \<longrightarrow> l' ! j = c)"])
    show "length l = 96 \<and> (\<forall>j<96. int j < 0 \<longrightarrow> l ! j = c)" using assms by simp
    show "(0::int) \<le> 96" by simp
    fix i :: int and s :: "crgb list"
    assume i: "0 \<le> i" "i < 96" and inv: "length s = 96 \<and> (\<forall>j<96. int j < i \<longrightarrow> s ! j = c)"
    have "wr (0 + i) c s = Some (s[nat i := c])" using i inv by (simp add: wr_def)
    moreover have "length (s[nat i := c]) = 96" using inv by simp
    moreover have "\<forall>j<96. int j < i + 1 \<longrightarrow> s[nat i := c] ! j = c"
    proof (intro allI impI)
      fix j :: nat assume j: "j < 96" "int j < i + 1"
      show "s[nat i := c] ! j = c"
      proof (cases "j = nat i")
        case True then show ?thesis using inv j by simp
      next
        case False
        then have "int j < i" using j i by linarith
        then show ?thesis using inv j False by simp
      qed
    qed
    ultimately show "\<exists>s'. wr (0 + i) c s = Some s'
       \<and> (length s' = 96 \<and> (\<forall>j<96. int j < i + 1 \<longrightarrow> s' ! j = c))" by simp
  qed
  then obtain l' where r: "for_range 0 96 (\<lambda>i. wr (0 + i) c) l = Some l'"
    and len: "length l' = 96" and all: "\<forall>j<96. l' ! j = c" by auto
  have "l' = replicate 96 c"
    by (rule nth_equalityI) (use len all in simp_all)
  then show ?thesis using r by (simp add: fill_solid_def NUM_LEDS_def)
qed

text \<open>Mode 4 in closed form.\<close>

lemma mode4_initialized:
  assumes "sideWipeInitialized s" "length (leds s) = 96" "0 \<le> wipeExp s" "wipeExp s \<le> 24"
  shows "mode4 s =
    Some ((if wipeExp s = 24
           then s\<lparr>wipeExp := 0, wipeColor := (if wipeColor s = Blue then Red else Blue)\<rparr>
           else s\<lparr>leds := (leds s)[nat (wipeExp s) := wipeColor s, nat (47 - wipeExp s) := wipeColor s,
                                   nat (48 + wipeExp s) := wipeColor s, nat (95 - wipeExp s) := wipeColor s],
                   wipeExp := wipeExp s + 1\<rparr>), 15)"
  using assms by (simp add: mode4_def Let_def wr_def)

lemma mode4_first:
  assumes "\<not> sideWipeInitialized s" "length (leds s) = 96"
  shows "mode4 s =
    Some (s\<lparr>leds := (replicate 96 Black)[0 := wipeColor s, 47 := wipeColor s,
                                            48 := wipeColor s, 95 := wipeColor s],
             wipeExp := 1, sideWipeInitialized := True\<rparr>, 65)"
  using assms by (simp add: mode4_def Let_def wr_def fill_solid_all)

lemma bounce_idx: "bounce_ok p d \<Longrightarrow> 0 \<le> p \<and> p < 48 \<and> 0 \<le> 47 - p \<and> p \<le> 47"
  by (auto simp: bounce_ok_def RING_LEDS_def)

lemma bounce_flip:
  "bounce_ok p d \<Longrightarrow> 47 \<le> p + d \<or> p + d \<le> 0 \<Longrightarrow> bounce_ok (p + d) (- d)"
  by (auto simp: bounce_ok_def RING_LEDS_def)

lemma bounce_keep:
  "bounce_ok p d \<Longrightarrow> \<not> (47 \<le> p + d \<or> p + d \<le> 0) \<Longrightarrow> bounce_ok (p + d) d"
  by (auto simp: bounce_ok_def RING_LEDS_def)

lemma mode12_ok:
  assumes "ring_inv s"
  shows "succeeds (mode12 L s) (\<lambda>(s', d). ring_inv s' \<and> same_wipe s s')"
proof -
  have b1: "bounce_ok (bouncePos1 s) (bounceDir1 s)" and b2: "bounce_ok (bouncePos2 s) (bounceDir2 s)"
    using assms by (simp_all add: ring_inv_def)
  show ?thesis
    unfolding mode12_def Let_def
    by (intro succeeds_intros)
       (use assms bounce_idx [OF b1] bounce_idx [OF b2] in
         \<open>simp_all add: ring_simps bounce_flip bounce_keep\<close>)
qed

lemma mode4_ok: "ring_inv s \<Longrightarrow> succeeds (mode4 s) (\<lambda>(s', d). ring_inv s')"
  by (cases "sideWipeInitialized s")
     (auto simp: mode4_initialized mode4_first succeeds_def ring_simps)

section \<open>Verification: iterations of the animation task\<close>

lemma calls_ok_quiet: "calls_ok quiet_calls"
  by (simp add: calls_ok_def quiet_calls_def)

lemma succeedsD: "succeeds m Q \<Longrightarrow> \<exists>x. m = Some x \<and> Q x"
  by (simp add: succeeds_def)

lemma iter_mode4: "currentMode c = 4 \<Longrightarrow> ledRingTask_iter L E c s = mode4 s"
  by (simp add: ledRingTask_iter_def)

lemma iter_default:
  "currentMode c < 0 \<or> 26 < currentMode c \<Longrightarrow> ledRingTask_iter L E c s = mode_default s"
  by (auto simp: ledRingTask_iter_def)

lemma iter_other_ok:
  assumes "ring_inv s" "calls_ok E" "currentMode c \<noteq> 4"
  shows "succeeds (ledRingTask_iter L E c s) (\<lambda>(s', d). ring_inv s' \<and> same_wipe s s')"
  using assms
  by (simp add: ledRingTask_iter_def Let_def
        mode0_ok mode1_ok mode2_ok mode3_ok mode5_ok mode6_ok mode7_ok mode8_ok mode9_ok
        mode10_ok mode11_ok mode12_ok mode13_ok mode14_ok mode15_ok mode16_ok mode17_ok
        mode18_ok mode19_ok mode20_ok mode21_ok mode22_ok mode23_ok mode24_ok mode25_ok
        mode26_ok mode_default_ok)

lemma iter_ok:
  assumes "ring_inv s" "calls_ok E"
  shows "succeeds (ledRingTask_iter L E c s) (\<lambda>(s', d). ring_inv s')"
proof (cases "currentMode c = 4")
  case True
  then show ?thesis using mode4_ok [OF assms(1)] by (simp add: iter_mode4)
next
  case False
  show ?thesis
    by (rule succeeds_weaken [OF iter_other_ok [OF assms False]]) auto
qed

lemma ring_inv_init: "ring_inv (ledRingTask_start c init_ring_state)"
  by (simp add: ledRingTask_start_def init_ring_state_def ring_inv_def in_ring_def
        bounce_ok_def RING_LEDS_def)

lemma ring_reachable_inv: "ring_reachable L s \<Longrightarrow> ring_inv s"
proof (induction rule: ring_reachable.induct)
  case (task_start c)
  show ?case by (rule ring_inv_init)
next
  case (iteration s E c s' d)
  from succeedsD [OF iter_ok [OF iteration.IH iteration.hyps(2), of L c]] iteration.hyps(3)
  show ?case by auto
qed

text \<open>
  C8: in every state the task can reach, one iteration of the loop in any of the
  modes 0 to 26 completes without an access outside \<^verbatim>\<open>leds[0..95]\<close> (an access
  out of range would make the result \<open>None\<close>) and leaves a buffer of 96 pixels,
  provided the library calls of the iteration return values in their documented
  ranges.  The state after the iteration is reachable again.
\<close>

theorem render_in_bounds:
  assumes "ring_reachable L s" and "calls_ok E"
    and "0 \<le> currentMode c" and "currentMode c \<le> 26"
  shows "\<exists>s' d. ledRingTask_iter L E c s = Some (s', d) \<and> length (leds s') = 96
           \<and> ring_reachable L s'"
proof -
  from succeedsD [OF iter_ok [OF ring_reachable_inv [OF assms(1)] assms(2), of L c]]
  obtain s' d where r: "ledRingTask_iter L E c s = Some (s', d)" and i: "ring_inv s'"
    by auto
  have "ring_reachable L s'" by (rule ring_reachable.iteration [OF assms(1,2) r])
  then show ?thesis using r i by (auto simp: ring_inv_def)
qed


theorem render_in_bounds_witness:
  "\<forall>L. ring_reachable L (ledRingTask_start init_config init_ring_state)
     \<and> calls_ok quiet_calls
     \<and> (\<exists>s' d. ledRingTask_iter L quiet_calls (init_config\<lparr>currentMode := 12\<rparr>)
                   (ledRingTask_start init_config init_ring_state) = Some (s', d)
            \<and> length (leds s') = 96)"
proof
  fix L
  have r: "ring_reachable L (ledRingTask_start init_config init_ring_state)"
    by (rule ring_reachable.task_start)
  from render_in_bounds [OF r calls_ok_quiet, of "init_config\<lparr>currentMode := 12\<rparr>"]
  show "ring_reachable L (ledRingTask_start init_config init_ring_state)
     \<and> calls_ok quiet_calls
     \<and> (\<exists>s' d. ledRingTask_iter L quiet_calls (init_config\<lparr>currentMode := 12\<rparr>)
                   (ledRingTask_start init_config init_ring_state) = Some (s', d)
            \<and> length (leds s') = 96)"
    using r calls_ok_quiet by (auto simp: init_config_def)
qed

text \<open>
  C9: for every value of \<^verbatim>\<open>currentMode\<close> below 0 or above 26 the iteration takes
  the \<^verbatim>\<open>default\<close> branch: all 96 pixels become black, nothing else changes, and
  the delay is 50 ms.
\<close>

theorem default_fallback:
  assumes "currentMode c < 0 \<or> 26 < currentMode c" and "length (leds s) = 96"
  shows "ledRingTask_iter L E c s = Some (s\<lparr>leds := replicate 96 Black\<rparr>, 50)"
  using assms by (simp add: iter_default mode_default_def fill_solid_all)


theorem default_fallback_witness:
  "\<forall>L E. ledRingTask_iter L E (init_config\<lparr>currentMode := 27\<rparr>)
             (init_ring_state\<lparr>leds := replicate 96 White\<rparr>)
           = Some (init_ring_state\<lparr>leds := replicate 96 Black\<rparr>, 50)
     \<and> ledRingTask_iter L E (init_config\<lparr>currentMode := - 1\<rparr>)
             (init_ring_state\<lparr>leds := replicate 96 White\<rparr>)
           = Some (init_ring_state\<lparr>leds := replicate 96 Black\<rparr>, 50)"
  using default_fallback [of "init_config\<lparr>currentMode := 27\<rparr>"
          "init_ring_state\<lparr>leds := replicate 96 White\<rparr>"]
        default_fallback [of "init_config\<lparr>currentMode := - 1\<rparr>"
          "init_ring_state\<lparr>leds := replicate 96 White\<rparr>"]
  by (simp add: init_config_def)

lemma Blue_neq_Red: "Blue \<noteq> Red"
  by (simp add: Blue_def Red_def)

lemma other_wipeColor_twice:
  "col = Blue \<or> col = Red \<Longrightarrow> other_wipeColor (other_wipeColor col) = col"
  by (auto simp: other_wipeColor_def Blue_neq_Red)

lemma other_wipeColor_neq: "other_wipeColor col \<noteq> col"
  using Blue_neq_Red by (auto simp: other_wipeColor_def)

lemma mode4_step:
  assumes "ring_inv s"
  shows "\<exists>s'. mode4 s = Some (s', if sideWipeInitialized s then 15 else 65)
           \<and> ring_inv s' \<and> sideWipeInitialized s'
           \<and> wipeExp s' = (if wipe_counter s = 24 then 0 else wipe_counter s + 1)
           \<and> wipeColor s' = (if wipe_counter s = 24 then other_wipeColor (wipeColor s)
                              else wipeColor s)"
proof -
  have i: "length (leds s) = 96" "0 \<le> wipeExp s" "wipeExp s \<le> 24"
    using assms by (simp_all add: ring_inv_def)
  from succeedsD [OF mode4_ok [OF assms]]
  obtain s' d where r: "mode4 s = Some (s', d)" and inv: "ring_inv s'" by auto
  show ?thesis
  proof (cases "sideWipeInitialized s")
    case True
    then show ?thesis
      using r inv mode4_initialized [OF True i]
      by (auto simp: wipe_counter_def other_wipeColor_def)
  next
    case False
    then show ?thesis
      using r inv mode4_first [OF False i(1)]
      by (auto simp: wipe_counter_def)
  qed
qed

lemma mode4_loop_initialized:
  "ring_inv s \<Longrightarrow> sideWipeInitialized s \<Longrightarrow> \<forall>f\<in>set fs. currentMode (snd f) = 4 \<Longrightarrow>
    \<exists>s'. ledRingTask_loop L fs s = Some s' \<and> ring_inv s' \<and> sideWipeInitialized s'
      \<and> wipeExp s' = (wipeExp s + int (length fs)) mod 25
      \<and> wipeColor s' = (if even ((wipeExp s + int (length fs)) div 25) then wipeColor s
                         else other_wipeColor (wipeColor s))"
proof (induction fs arbitrary: s)
  case Nil
  have "0 \<le> wipeExp s" "wipeExp s \<le> 24" using Nil.prems(1) by (simp_all add: ring_inv_def)
  then show ?case using Nil.prems by simp
next
  case (Cons f fs)
  obtain E c where f: "f = (E, c)" by (cases f)
  have c: "currentMode c = 4" using Cons.prems(3) f by simp
  have e: "0 \<le> wipeExp s" "wipeExp s \<le> 24" and col: "wipeColor s = Blue \<or> wipeColor s = Red"
    using Cons.prems(1) by (simp_all add: ring_inv_def)
  from mode4_step [OF Cons.prems(1)] Cons.prems(2)
  obtain s1 where s1: "mode4 s = Some (s1, 15)" "ring_inv s1" "sideWipeInitialized s1"
    "wipeExp s1 = (if wipeExp s = 24 then 0 else wipeExp s + 1)"
    "wipeColor s1 = (if wipeExp s = 24 then other_wipeColor (wipeColor s) else wipeColor s)"
    by (auto simp: wipe_counter_def)
  from Cons.IH [OF s1(2,3)] Cons.prems(3)
  obtain s' where s': "ledRingTask_loop L fs s1 = Some s'" "ring_inv s'" "sideWipeInitialized s'"
    "wipeExp s' = (wipeExp s1 + int (length fs)) mod 25"
    "wipeColor s' = (if even ((wipeExp s1 + int (length fs)) div 25) then wipeColor s1
                     else other_wipeColor (wipeColor s1))"
    by auto
  have run: "ledRingTask_loop L (f # fs) s = Some s'"
    using s1(1) s'(1) c by (simp add: f iter_mode4)
  define n where "n = int (length fs)"
  have n0: "0 \<le> n" by (simp add: n_def)
  have len: "int (length (f # fs)) = n + 1" by (simp add: n_def)
  show ?case
  proof (cases "wipeExp s = 24")
    case True
    have m: "(wipeExp s + (n + 1)) mod 25 = n mod 25" "(wipeExp s + (n + 1)) div 25 = n div 25 + 1"
      using True n0 by simp_all
    have "wipeExp s' = (wipeExp s + (n + 1)) mod 25"
      using s'(4) s1(4) True by (simp add: m n_def)
    moreover have "wipeColor s' = (if even ((wipeExp s + (n + 1)) div 25) then wipeColor s
                         else other_wipeColor (wipeColor s))"
      using s'(5) s1(4,5) True col by (simp add: m n_def other_wipeColor_twice)
    ultimately show ?thesis using run s'(2,3) by (simp only: len) blast
  next
    case False
    have eq: "wipeExp s1 + n = wipeExp s + (n + 1)" using s1(4) False by simp
    have "wipeExp s' = (wipeExp s1 + n) mod 25" using s'(4) by (simp only: n_def)
    then have "wipeExp s' = (wipeExp s + (n + 1)) mod 25" by (simp only: eq)
    moreover have "wipeColor s' = (if even ((wipeExp s1 + n) div 25) then wipeColor s
                         else other_wipeColor (wipeColor s))"
      using s'(5) s1(5) False by (simp only: n_def if_False)
    then have "wipeColor s' = (if even ((wipeExp s + (n + 1)) div 25) then wipeColor s
                         else other_wipeColor (wipeColor s))" by (simp only: eq)
    ultimately show ?thesis using run s'(2,3) by (simp only: len) blast
  qed
qed

lemma mode4_loop:
  assumes "ring_inv s" "fs \<noteq> []" "\<forall>f\<in>set fs. currentMode (snd f) = 4"
  shows "\<exists>s'. ledRingTask_loop L fs s = Some s' \<and> sideWipeInitialized s'
      \<and> wipeExp s' = (wipe_counter s + int (length fs)) mod 25
      \<and> wipeColor s' = (if even ((wipe_counter s + int (length fs)) div 25) then wipeColor s
                         else other_wipeColor (wipeColor s))"
proof -
  obtain f fs' where fs: "fs = f # fs'" using assms(2) by (cases fs) auto
  obtain E c where f: "f = (E, c)" by (cases f)
  have c: "currentMode c = 4" using assms(3) fs f by simp
  have e: "0 \<le> wipe_counter s" "wipe_counter s \<le> 24"
    using assms(1) by (simp_all add: ring_inv_def wipe_counter_def)
  have col: "wipeColor s = Blue \<or> wipeColor s = Red"
    using assms(1) by (simp add: ring_inv_def)
  from mode4_step [OF assms(1)]
  obtain s1 d where s1: "mode4 s = Some (s1, d)" "ring_inv s1" "sideWipeInitialized s1"
    "wipeExp s1 = (if wipe_counter s = 24 then 0 else wipe_counter s + 1)"
    "wipeColor s1 = (if wipe_counter s = 24 then other_wipeColor (wipeColor s) else wipeColor s)"
    by auto
  from mode4_loop_initialized [OF s1(2,3), of fs' L] assms(3) fs
  obtain s' where s': "ledRingTask_loop L fs' s1 = Some s'" "sideWipeInitialized s'"
    "wipeExp s' = (wipeExp s1 + int (length fs')) mod 25"
    "wipeColor s' = (if even ((wipeExp s1 + int (length fs')) div 25) then wipeColor s1
                     else other_wipeColor (wipeColor s1))"
    by auto
  have run: "ledRingTask_loop L fs s = Some s'"
    using s1(1) s'(1) c by (simp add: fs f iter_mode4)
  define n where "n = int (length fs')"
  have n0: "0 \<le> n" by (simp add: n_def)
  have len: "int (length fs) = n + 1" by (simp add: n_def fs)
  show ?thesis
  proof (cases "wipe_counter s = 24")
    case True
    have m: "(wipe_counter s + (n + 1)) mod 25 = n mod 25"
      "(wipe_counter s + (n + 1)) div 25 = n div 25 + 1"
      using True n0 by simp_all
    have "wipeExp s' = (wipe_counter s + (n + 1)) mod 25"
      using s'(3) s1(4) True by (simp add: m n_def)
    moreover have "wipeColor s' = (if even ((wipe_counter s + (n + 1)) div 25) then wipeColor s
                         else other_wipeColor (wipeColor s))"
      using s'(4) s1(4,5) True col by (simp add: m n_def other_wipeColor_twice)
    ultimately show ?thesis using run s'(2) by (simp only: len) blast
  next
    case False
    have eq: "wipeExp s1 + n = wipe_counter s + (n + 1)" using s1(4) False by simp
    have "wipeExp s' = (wipeExp s1 + n) mod 25" using s'(3) by (simp only: n_def)
    then have "wipeExp s' = (wipe_counter s + (n + 1)) mod 25" by (simp only: eq)
    moreover have "wipeColor s' = (if even ((wipeExp s1 + n) div 25) then wipeColor s
                         else other_wipeColor (wipeColor s))"
      using s'(4) s1(5) False by (simp only: n_def if_False)
    then have "wipeColor s' = (if even ((wipe_counter s + (n + 1)) div 25) then wipeColor s
                         else other_wipeColor (wipeColor s))" by (simp only: eq)
    ultimately show ?thesis using run s'(2) by (simp only: len) blast
  qed
qed

lemma loop_reachable:
  "ring_reachable L s \<Longrightarrow> \<forall>f\<in>set fs. calls_ok (fst f) \<Longrightarrow> ledRingTask_loop L fs s = Some s'
    \<Longrightarrow> ring_reachable L s'"
proof (induction fs arbitrary: s)
  case Nil
  then show ?case by simp
next
  case (Cons f fs)
  obtain E c where f: "f = (E, c)" by (cases f)
  from Cons.prems(3) obtain s1 d where s1: "ledRingTask_iter L E c s = Some (s1, d)"
    "ledRingTask_loop L fs s1 = Some s'"
    by (auto simp: f split: option.splits)
  have "calls_ok E" using Cons.prems(2) f by simp
  then have "ring_reachable L s1"
    using ring_reachable.iteration [OF Cons.prems(1) _ s1(1)] by simp
  then show ?case using Cons.IH [OF _ _ s1(2)] Cons.prems(2) by simp
qed

text \<open>
  C10: the wipe colour of mode 4 is Blue when the task starts and is Blue or Red
  in every reachable state.  An iteration changes it exactly when the iteration
  runs mode 4 and the expansion counter, after its increment, exceeds 24 (the
  counter the iteration works with is 0 when it first clears the ring); the
  colour then becomes the other of the two and the counter is set back to 0.
  Otherwise a mode 4 iteration advances the counter by one, and an iteration in
  another mode leaves counter and colour alone.  So \<open>n\<close> consecutive mode 4
  iterations take the counter \<open>e\<close> to \<open>(e + n) mod 25\<close> and switch the colour
  \<open>(e + n) div 25\<close> times: once per cycle of 25 steps.
\<close>

theorem wipeColor_invariant:
  assumes "ring_reachable L s"
  shows "wipeColor (ledRingTask_start c0 init_ring_state) = Blue
    \<and> (wipeColor s = Blue \<or> wipeColor s = Red)
    \<and> other_wipeColor (wipeColor s) \<noteq> wipeColor s
    \<and> (\<forall>E c. calls_ok E \<longrightarrow>
          (\<exists>s' d. ledRingTask_iter L E c s = Some (s', d)
             \<and> ((wipeColor s' \<noteq> wipeColor s) = (currentMode c = 4 \<and> 24 < wipe_counter s + 1))
             \<and> (wipeColor s' \<noteq> wipeColor s \<longrightarrow>
                  wipeColor s' = other_wipeColor (wipeColor s) \<and> wipeExp s' = 0)
             \<and> (currentMode c = 4 \<and> wipeColor s' = wipeColor s \<longrightarrow>
                  wipeExp s' = wipe_counter s + 1)
             \<and> (currentMode c = 4 \<longrightarrow> sideWipeInitialized s')
             \<and> (currentMode c \<noteq> 4 \<longrightarrow>
                  wipeExp s' = wipeExp s \<and> sideWipeInitialized s' = sideWipeInitialized s)))
    \<and> (\<forall>fs. fs \<noteq> [] \<and> (\<forall>f\<in>set fs. currentMode (snd f) = 4) \<longrightarrow>
          (\<exists>s'. ledRingTask_loop L fs s = Some s'
             \<and> wipeExp s' = (wipe_counter s + int (length fs)) mod 25
             \<and> wipeColor s' = (if even ((wipe_counter s + int (length fs)) div 25)
                               then wipeColor s else other_wipeColor (wipeColor s))
             \<and> ((\<forall>f\<in>set fs. calls_ok (fst f)) \<longrightarrow> ring_reachable L s')))"
proof -
  have inv: "ring_inv s" by (rule ring_reachable_inv [OF assms])
  have e: "0 \<le> wipe_counter s" "wipe_counter s \<le> 24"
    using inv by (simp_all add: ring_inv_def wipe_counter_def)
  have init: "wipeColor (ledRingTask_start c0 init_ring_state) = Blue"
    by (simp add: ledRingTask_start_def init_ring_state_def)
  have col: "wipeColor s = Blue \<or> wipeColor s = Red" using inv by (simp add: ring_inv_def)
  have step: "\<exists>s' d. ledRingTask_iter L E c s = Some (s', d)
             \<and> ((wipeColor s' \<noteq> wipeColor s) = (currentMode c = 4 \<and> 24 < wipe_counter s + 1))
             \<and> (wipeColor s' \<noteq> wipeColor s \<longrightarrow>
                  wipeColor s' = other_wipeColor (wipeColor s) \<and> wipeExp s' = 0)
             \<and> (currentMode c = 4 \<and> wipeColor s' = wipeColor s \<longrightarrow>
                  wipeExp s' = wipe_counter s + 1)
             \<and> (currentMode c = 4 \<longrightarrow> sideWipeInitialized s')
             \<and> (currentMode c \<noteq> 4 \<longrightarrow>
                  wipeExp s' = wipeExp s \<and> sideWipeInitialized s' = sideWipeInitialized s)"
    if E: "calls_ok E" for E c
  proof (cases "currentMode c = 4")
    case True
    from mode4_step [OF inv]
    obtain s' d where r: "mode4 s = Some (s', d)" "sideWipeInitialized s'"
      "wipeExp s' = (if wipe_counter s = 24 then 0 else wipe_counter s + 1)"
      "wipeColor s' = (if wipe_counter s = 24 then other_wipeColor (wipeColor s) else wipeColor s)"
      by auto
    show ?thesis
      using r True e other_wipeColor_neq [of "wipeColor s"]
      by (auto simp: iter_mode4)
  next
    case False
    from succeedsD [OF iter_other_ok [OF inv E False, of L]]
    obtain s' d where "ledRingTask_iter L E c s = Some (s', d)" "same_wipe s s'" by auto
    then show ?thesis using False by (simp add: same_wipe_def)
  qed
  have run: "\<exists>s'. ledRingTask_loop L fs s = Some s'
             \<and> wipeExp s' = (wipe_counter s + int (length fs)) mod 25
             \<and> wipeColor s' = (if even ((wipe_counter s + int (length fs)) div 25)
                               then wipeColor s else other_wipeColor (wipeColor s))
             \<and> ((\<forall>f\<in>set fs. calls_ok (fst f)) \<longrightarrow> ring_reachable L s')"
    if fs: "fs \<noteq> []" "\<forall>f\<in>set fs. currentMode (snd f) = 4" for fs
  proof -
    from mode4_loop [OF inv fs, of L]
    obtain s' where s': "ledRingTask_loop L fs s = Some s'"
      "wipeExp s' = (wipe_counter s + int (length fs)) mod 25"
      "wipeColor s' = (if even ((wipe_counter s + int (length fs)) div 25)
                               then wipeColor s else other_wipeColor (wipeColor s))"
      by auto
    have "(\<forall>f\<in>set fs. calls_ok (fst f)) \<longrightarrow> ring_reachable L s'"
      using loop_reachable [OF assms _ s'(1)] by blast
    then show ?thesis using s' by blast
  qed
  show ?thesis
    using init col other_wipeColor_neq [of "wipeColor s"] step run by blast
qed

theorem wipeColor_invariant_witness:
  "\<forall>L. ring_reachable L (ledRingTask_start init_config init_ring_state)
     \<and> wipe_after L (replicate 24 (quiet_calls, init_config\<lparr>currentMode := 4\<rparr>))
          (ledRingTask_start init_config init_ring_state) = Some (24, Blue)
     \<and> wipe_after L (replicate 25 (quiet_calls, init_config\<lparr>currentMode := 4\<rparr>))
          (ledRingTask_start init_config init_ring_state) = Some (0, Red)
     \<and> wipe_after L (replicate 50 (quiet_calls, init_config\<lparr>currentMode := 4\<rparr>))
          (ledRingTask_start init_config init_ring_state) = Some (0, Blue)
     \<and> (\<exists>s'. ring_reachable L s' \<and> wipeExp s' = 24 \<and> wipeColor s' = Blue)
     \<and> (\<exists>s'. ring_reachable L s' \<and> wipeExp s' = 0 \<and> wipeColor s' = Red)
     \<and> Red \<noteq> Blue"
proof
  fix L
  define s0 where "s0 = ledRingTask_start init_config init_ring_state"
  define c4 where "c4 = init_config\<lparr>currentMode := 4\<rparr>"
  have r: "ring_reachable L s0" unfolding s0_def by (rule ring_reachable.task_start)
  have s0: "wipe_counter s0 = 0" "wipeColor s0 = Blue"
    by (simp_all add: s0_def wipe_counter_def ledRingTask_start_def init_ring_state_def)
  have ob: "other_wipeColor Blue = Red" by (simp add: other_wipeColor_def)
  from wipeColor_invariant [OF r, of init_config]
  have run: "\<And>fs. fs \<noteq> [] \<Longrightarrow> \<forall>f\<in>set fs. currentMode (snd f) = 4 \<Longrightarrow>
          (\<exists>s'. ledRingTask_loop L fs s0 = Some s'
             \<and> wipeExp s' = (wipe_counter s0 + int (length fs)) mod 25
             \<and> wipeColor s' = (if even ((wipe_counter s0 + int (length fs)) div 25)
                               then wipeColor s0 else other_wipeColor (wipeColor s0))
             \<and> ((\<forall>f\<in>set fs. calls_ok (fst f)) \<longrightarrow> ring_reachable L s'))"
    by blast
  from run [of "replicate 24 (quiet_calls, c4)"]
  obtain a where a: "ledRingTask_loop L (replicate 24 (quiet_calls, c4)) s0 = Some a"
    "wipeExp a = 24" "wipeColor a = Blue" "ring_reachable L a"
    using calls_ok_quiet by (auto simp: s0 c4_def)
  from run [of "replicate 25 (quiet_calls, c4)"]
  obtain b where b: "ledRingTask_loop L (replicate 25 (quiet_calls, c4)) s0 = Some b"
    "wipeExp b = 0" "wipeColor b = Red" "ring_reachable L b"
    using calls_ok_quiet by (auto simp: s0 c4_def ob)
  from run [of "replicate 50 (quiet_calls, c4)"]
  obtain c where c: "ledRingTask_loop L (replicate 50 (quiet_calls, c4)) s0 = Some c"
    "wipeExp c = 0" "wipeColor c = Blue"
    using calls_ok_quiet by (auto simp: s0 c4_def ob)
  have "Red \<noteq> Blue" using Blue_neq_Red by simp
  then show "ring_reachable L (ledRingTask_start init_config init_ring_state)
     \<and> wipe_after L (replicate 24 (quiet_calls, init_config\<lparr>currentMode := 4\<rparr>))
          (ledRingTask_start init_config init_ring_state) = Some (24, Blue)
     \<and> wipe_after L (replicate 25 (quiet_calls, init_config\<lparr>currentMode := 4\<rparr>))
          (ledRingTask_start init_config init_ring_state) = Some (0, Red)
     \<and> wipe_after L (replicate 50 (quiet_calls, init_config\<lparr>currentMode := 4\<rparr>))
          (ledRingTask_start init_config init_ring_state) = Some (0, Blue)
     \<and> (\<exists>s'. ring_reachable L s' \<and> wipeExp s' = 24 \<and> wipeColor s' = Blue)
     \<and> (\<exists>s'. ring_reachable L s' \<and> wipeExp s' = 0 \<and> wipeColor s' = Red)
     \<and> Red \<noteq> Blue"
    using r a b c unfolding s0_def [symmetric] c4_def [symmetric]
    by (auto simp: wipe_after_def)
qed

section \<open>Verification: rainbow continuity and the side wipe across mode switches\<close>

lemma spec_hue_0: "spec_hue h 0 = h"
  by (simp add: spec_hue_def)

lemma mode0_result:
  assumes "length (leds s) = 96"
  shows "\<exists>l. mode0 L s = Some (s\<lparr>leds := l, startHueRing1 := startHueRing1 s + 1,
                                    startHueRing2 := startHueRing2 s + 1\<rparr>, 10)
           \<and> length l = 96
           \<and> (\<forall>i<48. l ! i = hsv2rgb L (CHSV (spec_hue (startHueRing1 s) i) 255 255))
           \<and> (\<forall>i<48. l ! (48 + i) = hsv2rgb L (CHSV (spec_hue (startHueRing2 s) i) 255 255))"
proof -
  from rainbow_48 [of 0 "leds s" L "startHueRing1 s"] assms
  obtain l1 where l1: "fill_ring_with_exact_rainbow L 0 48 (startHueRing1 s) (leds s) = Some l1"
    "length l1 = 96"
    "\<And>j. 0 \<le> j \<Longrightarrow> j < 48 \<Longrightarrow> l1 ! nat j = hsv2rgb L (CHSV (spec_hue (startHueRing1 s) (nat j)) 255 255)"
    by auto
  from rainbow_48 [of 48 l1 L "startHueRing2 s"] l1(2)
  obtain l2 where l2: "fill_ring_with_exact_rainbow L 48 48 (startHueRing2 s) l1 = Some l2"
    "length l2 = 96"
    "\<And>j. 0 \<le> j \<Longrightarrow> j < 48 \<Longrightarrow> l2 ! nat (48 + j) = hsv2rgb L (CHSV (spec_hue (startHueRing2 s) (nat j)) 255 255)"
    "\<And>n. n < 48 \<Longrightarrow> l2 ! n = l1 ! n"
    by auto
  have a: "\<forall>i<48. l2 ! i = hsv2rgb L (CHSV (spec_hue (startHueRing1 s) i) 255 255)"
    using l1(3) [of "int i" for i] l2(4) by auto
  have b: "\<forall>i<48. l2 ! (48 + i) = hsv2rgb L (CHSV (spec_hue (startHueRing2 s) i) 255 255)"
  proof (intro allI impI)
    fix i :: nat assume "i < 48"
    then show "l2 ! (48 + i) = hsv2rgb L (CHSV (spec_hue (startHueRing2 s) i) 255 255)"
      using l2(3) [of "int i"] by (simp add: nat_add_distrib)
  qed
  have "mode0 L s = Some (s\<lparr>leds := l2, startHueRing1 := startHueRing1 s + 1,
                             startHueRing2 := startHueRing2 s + 1\<rparr>, 10)"
    using l1(1) l2(1) by (simp add: mode0_def RING_LEDS_def)
  then show ?thesis using l2(2) a b by blast
qed

lemma iter_mode0: "currentMode c = 0 \<Longrightarrow> ledRingTask_iter L E c s = mode0 L s"
  by (simp add: ledRingTask_iter_def)

lemma iter_mode1: "currentMode c = 1 \<Longrightarrow> ledRingTask_iter L E c s = mode1 s"
  by (simp add: ledRingTask_iter_def)

lemma mode0_loop_ring:
  "length (leds s) = 96 \<Longrightarrow> \<forall>f\<in>set fs. currentMode (snd f) = 0 \<Longrightarrow>
    \<exists>s'. ledRingTask_loop L fs s = Some s' \<and> length (leds s') = 96
      \<and> startHueRing1 s' = startHueRing1 s + of_nat (length fs)
      \<and> (fs \<noteq> [] \<longrightarrow>
           (\<forall>i<48. leds s' ! i
              = hsv2rgb L (CHSV (spec_hue (startHueRing1 s + of_nat (length fs - 1)) i) 255 255)))"
proof (induction fs arbitrary: s)
  case Nil
  then show ?case by simp
next
  case (Cons f fs)
  obtain E c where f: "f = (E, c)" by (cases f)
  have c: "currentMode c = 0" using Cons.prems(2) f by simp
  from mode0_result [OF Cons.prems(1), of L]
  obtain l where l: "mode0 L s = Some (s\<lparr>leds := l, startHueRing1 := startHueRing1 s + 1,
                                          startHueRing2 := startHueRing2 s + 1\<rparr>, 10)"
    "length l = 96" "\<forall>i<48. l ! i = hsv2rgb L (CHSV (spec_hue (startHueRing1 s) i) 255 255)"
    by auto
  define s1 where "s1 = s\<lparr>leds := l, startHueRing1 := startHueRing1 s + 1,
                           startHueRing2 := startHueRing2 s + 1\<rparr>"
  have s1: "length (leds s1) = 96" "startHueRing1 s1 = startHueRing1 s + 1"
    "\<forall>i<48. leds s1 ! i = hsv2rgb L (CHSV (spec_hue (startHueRing1 s) i) 255 255)"
    using l by (simp_all add: s1_def)
  from Cons.IH [OF s1(1)] Cons.prems(2)
  obtain s' where s': "ledRingTask_loop L fs s1 = Some s'" "length (leds s') = 96"
    "startHueRing1 s' = startHueRing1 s1 + of_nat (length fs)"
    "fs \<noteq> [] \<longrightarrow> (\<forall>i<48. leds s' ! i
        = hsv2rgb L (CHSV (spec_hue (startHueRing1 s1 + of_nat (length fs - 1)) i) 255 255))"
    by auto
  have run: "ledRingTask_loop L (f # fs) s = Some s'"
    using l(1) s'(1) c by (simp add: f iter_mode0 s1_def)
  have hue: "startHueRing1 s' = startHueRing1 s + of_nat (length (f # fs))"
    using s'(3) s1(2) by simp
  have pix: "\<forall>i<48. leds s' ! i
       = hsv2rgb L (CHSV (spec_hue (startHueRing1 s + of_nat (length (f # fs) - 1)) i) 255 255)"
  proof (cases "fs = []")
    case True
    then show ?thesis using s'(1) s1(3) by simp
  next
    case False
    then obtain n where n: "length fs = Suc n" by (cases fs) auto
    show ?thesis using s'(4) False s1(2) by (simp add: n add.assoc)
  qed
  show ?case using run s'(2) hue pix by blast
qed

lemma rainbow_pixel0_plain: "rainbow_pixel0 plain_hsv h = Some (CRGB h 255 255)"
proof -
  from rainbow_48 [of 0 "replicate 96 Black" plain_hsv h]
  obtain l where l: "fill_ring_with_exact_rainbow plain_hsv 0 48 h (replicate 96 Black) = Some l"
    "\<And>j. 0 \<le> j \<Longrightarrow> j < 48 \<Longrightarrow>
       l ! nat j = hsv2rgb plain_hsv (CHSV (spec_hue h (nat j)) 255 255)"
    by auto
  have "l ! 0 = CRGB h 255 255"
    using l(2) [of 0] by (simp add: spec_hue_0 plain_hsv_def)
  then show ?thesis using l(1) by (simp add: rainbow_pixel0_def)
qed

text \<open>
  C7 as stated does not hold: each mode 0 iteration draws with the current
  counter and increments it afterwards, so the frame of the 48th iteration is
  drawn with the counter at \<open>h0 + 47\<close>.  From the initial state
  (\<open>h0 = 0\<close>), with a conversion that keeps the hue readable, 48 iterations
  leave the counter at 48 and Ring A pixel 0 at hue 47, while the hue
  distribution for the starting hue 48 gives pixel 0 the hue 48.
\<close>

theorem rainbow_48th_frame_counterexample:
  "startHueRing1_after plain_hsv (replicate 48 (quiet_calls, init_config)) init_ring_state = Some 48
   \<and> pixel0_after plain_hsv (replicate 48 (quiet_calls, init_config)) init_ring_state
       = Some (CRGB 47 255 255)
   \<and> rainbow_pixel0 plain_hsv 48 = Some (CRGB 48 255 255)
   \<and> pixel0_after plain_hsv (replicate 48 (quiet_calls, init_config)) init_ring_state
       \<noteq> rainbow_pixel0 plain_hsv 48"
proof -
  have a: "length (leds init_ring_state) = 96" by (simp add: init_ring_state_def)
  have c: "\<forall>f\<in>set (replicate 48 (quiet_calls, init_config)). currentMode (snd f) = 0"
    by (simp add: init_config_def)
  from mode0_loop_ring [OF a c, of plain_hsv]
  obtain s' where s': "ledRingTask_loop plain_hsv (replicate 48 (quiet_calls, init_config))
                         init_ring_state = Some s'"
    "startHueRing1 s' = startHueRing1 init_ring_state + 48"
    "\<forall>i<48. leds s' ! i
       = hsv2rgb plain_hsv (CHSV (spec_hue (startHueRing1 init_ring_state + 47) i) 255 255)"
    by auto
  have h0: "startHueRing1 init_ring_state = 0" by (simp add: init_ring_state_def)
  have p: "leds s' ! 0 = CRGB 47 255 255"
    using s'(3) by (simp add: spec_hue_0 h0 plain_hsv_def)
  have "startHueRing1 s' = 48" using s'(2) h0 by simp
  then show ?thesis
    using s'(1) p by (simp add: startHueRing1_after_def pixel0_after_def rainbow_pixel0_plain)
qed

text \<open>
  C7, amended: from a state with \<^verbatim>\<open>startHueRing1\<close> equal to \<open>h0\<close>, 48 iterations
  that all see mode 0 leave the counter at \<open>h0 + 48\<close> modulo 256, and the frame
  the 48th of them has drawn gives every pixel of Ring A the value that
  \<^verbatim>\<open>fill_ring_with_exact_rainbow\<close> computes for the starting hue \<open>h0 + 47\<close>
  modulo 256; pixel 0 carries that hue itself.
\<close>

theorem rainbow_after_48_frames:
  assumes "length (leds s) = 96" and "length fs = 48"
    and "\<forall>f\<in>set fs. currentMode (snd f) = 0"
  shows "\<exists>s'. ledRingTask_loop L fs s = Some s'
           \<and> startHueRing1 s' = startHueRing1 s + 48
           \<and> (\<exists>l. fill_ring_with_exact_rainbow L 0 48 (startHueRing1 s + 47) (leds s) = Some l
                 \<and> (\<forall>i<48. leds s' ! i = l ! i))
           \<and> leds s' ! 0 = hsv2rgb L (CHSV (startHueRing1 s + 47) 255 255)"
proof -
  from mode0_loop_ring [OF assms(1,3), of L] assms(2)
  obtain s' where s': "ledRingTask_loop L fs s = Some s'"
    "startHueRing1 s' = startHueRing1 s + 48"
    "\<forall>i<48. leds s' ! i = hsv2rgb L (CHSV (spec_hue (startHueRing1 s + 47) i) 255 255)"
    by auto
  from rainbow_48 [of 0 "leds s" L "startHueRing1 s + 47"] assms(1)
  obtain l where l: "fill_ring_with_exact_rainbow L 0 48 (startHueRing1 s + 47) (leds s) = Some l"
    "\<And>j. 0 \<le> j \<Longrightarrow> j < 48 \<Longrightarrow>
       l ! nat j = hsv2rgb L (CHSV (spec_hue (startHueRing1 s + 47) (nat j)) 255 255)"
    by auto
  have eq: "\<forall>i<48. leds s' ! i = l ! i"
  proof (intro allI impI)
    fix i :: nat assume i: "i < 48"
    show "leds s' ! i = l ! i" using s'(3) i l(2) [of "int i"] by simp
  qed
  have p0: "leds s' ! 0 = hsv2rgb L (CHSV (startHueRing1 s + 47) 255 255)"
    using s'(3) by (simp add: spec_hue_0)
  show ?thesis using s'(1,2) l(1) eq p0 by blast
qed

theorem rainbow_after_48_frames_witness:
  "\<forall>L E. \<exists>s'. ledRingTask_loop L (replicate 48 (E, init_config))
                   (init_ring_state\<lparr>startHueRing1 := 250\<rparr>) = Some s'
     \<and> startHueRing1 s' = 42
     \<and> leds s' ! 0 = hsv2rgb L (CHSV 41 255 255)"
proof (intro allI)
  fix L :: fastled and E :: calls
  have a: "length (leds (init_ring_state\<lparr>startHueRing1 := 250\<rparr>)) = 96"
    by (simp add: init_ring_state_def)
  have b: "length (replicate 48 (E, init_config)) = 48" by simp
  have c: "\<forall>f\<in>set (replicate 48 (E, init_config)). currentMode (snd f) = 0"
    by (simp add: init_config_def)
  have e: "(298 :: 8 word) = 42" "(297 :: 8 word) = 41" by simp_all
  from rainbow_after_48_frames [OF a b c, of L]
  show "\<exists>s'. ledRingTask_loop L (replicate 48 (E, init_config))
                   (init_ring_state\<lparr>startHueRing1 := 250\<rparr>) = Some s'
     \<and> startHueRing1 s' = 42
     \<and> leds s' ! 0 = hsv2rgb L (CHSV 41 255 255)"
    by (auto simp: e)
qed


lemma sideWipeInitialized_sticky:
  assumes "ring_inv s" and "calls_ok E" and "sideWipeInitialized s"
  shows "succeeds (ledRingTask_iter L E c s) (\<lambda>(s', d). sideWipeInitialized s')"
proof (cases "currentMode c = 4")
  case True
  have "length (leds s) = 96" "0 \<le> wipeExp s" "wipeExp s \<le> 24"
    using assms(1) by (simp_all add: ring_inv_def)
  then show ?thesis
    using assms(3) True by (simp add: iter_mode4 mode4_initialized succeeds_def)
next
  case False
  show ?thesis
    by (rule succeeds_weaken [OF iter_other_ok [OF assms(1,2) False]])
       (use assms(3) in \<open>auto simp: same_wipe_def\<close>)
qed

text \<open>
  C1 does not hold of the code.  \<^verbatim>\<open>sideWipeInitialized\<close> is cleared only by the
  statement in front of the \<^verbatim>\<open>while (1)\<close> loop, which runs once when the task
  starts; no iteration clears it.  From the start of the task, an iteration in
  mode 4 (which clears the ring, 50 + 15 ms), then one in mode 0, then one in
  mode 4 again: the flag is still set after the mode 0 frame, and the second
  mode 4 frame does not clear the buffer (pixel 2 keeps the rainbow colour),
  takes 15 ms and moves the counter from 1 to 2 instead of starting again from
  0.  The same with mode 1 in between leaves pixel 2 blue, not black.
\<close>

theorem side_wipe_not_reset_after_mode_switch:
  "\<forall>L E. \<exists>s1 s2 s3 t2 t3.
     ledRingTask_iter L E (init_config\<lparr>currentMode := 4\<rparr>)
        (ledRingTask_start init_config init_ring_state) = Some (s1, 65)
   \<and> ledRingTask_iter L E (init_config\<lparr>currentMode := 0\<rparr>) s1 = Some (s2, 10)
   \<and> ledRingTask_iter L E (init_config\<lparr>currentMode := 4\<rparr>) s2 = Some (s3, 15)
   \<and> sideWipeInitialized s2 \<and> wipeExp s2 = 1 \<and> wipeExp s3 = 2
   \<and> leds s3 ! 2 = hsv2rgb L (CHSV 10 255 255)
   \<and> ledRingTask_iter L E (init_config\<lparr>currentMode := 1\<rparr>) s1 = Some (t2, 50)
   \<and> ledRingTask_iter L E (init_config\<lparr>currentMode := 4\<rparr>) t2 = Some (t3, 15)
   \<and> sideWipeInitialized t2 \<and> wipeExp t3 = 2 \<and> leds t3 ! 2 = Blue \<and> Blue \<noteq> Black"
proof (intro allI)
  fix L :: fastled and E :: calls
  define s0 where "s0 = ledRingTask_start init_config init_ring_state"
  define c4 where "c4 = init_config\<lparr>currentMode := 4\<rparr>"
  have s0: "\<not> sideWipeInitialized s0" "length (leds s0) = 96" "wipeColor s0 = Blue"
    by (simp_all add: s0_def ledRingTask_start_def init_ring_state_def init_config_def)
  define s1 where "s1 = s0\<lparr>leds := (replicate 96 Black)[0 := wipeColor s0, 47 := wipeColor s0,
                                            48 := wipeColor s0, 95 := wipeColor s0],
             wipeExp := 1, sideWipeInitialized := True\<rparr>"
  have r1: "ledRingTask_iter L E c4 s0 = Some (s1, 65)"
    using mode4_first [OF s0(1,2)] by (simp add: iter_mode4 c4_def s1_def)
  have s1: "length (leds s1) = 96" "sideWipeInitialized s1" "wipeExp s1 = 1"
    "wipeColor s1 = Blue" "startHueRing1 s1 = 0"
    by (simp_all add: s1_def s0 s0_def ledRingTask_start_def init_ring_state_def init_config_def)
  from mode0_result [OF s1(1), of L]
  obtain l where l: "mode0 L s1 = Some (s1\<lparr>leds := l, startHueRing1 := startHueRing1 s1 + 1,
                                          startHueRing2 := startHueRing2 s1 + 1\<rparr>, 10)"
    "length l = 96" "\<forall>i<48. l ! i = hsv2rgb L (CHSV (spec_hue (startHueRing1 s1) i) 255 255)"
    by auto
  define s2 where "s2 = s1\<lparr>leds := l, startHueRing1 := startHueRing1 s1 + 1,
                            startHueRing2 := startHueRing2 s1 + 1\<rparr>"
  have r2: "ledRingTask_iter L E (init_config\<lparr>currentMode := 0\<rparr>) s1 = Some (s2, 10)"
    using l(1) by (simp add: iter_mode0 s2_def)
  have "spec_hue 0 2 = 10" by (simp add: spec_hue_def)
  then have l2: "l ! 2 = hsv2rgb L (CHSV 10 255 255)"
    using l(3) [rule_format, of 2] by (simp add: s1(5))
  have s2: "length (leds s2) = 96" "sideWipeInitialized s2" "wipeExp s2 = 1" "leds s2 ! 2 = hsv2rgb L (CHSV 10 255 255)"
    using l(2) l2 s1 by (simp_all add: s2_def)
  define s3 where "s3 = s2\<lparr>leds := (leds s2)[nat (wipeExp s2) := wipeColor s2, nat (47 - wipeExp s2) := wipeColor s2,
                                   nat (48 + wipeExp s2) := wipeColor s2, nat (95 - wipeExp s2) := wipeColor s2],
                   wipeExp := wipeExp s2 + 1\<rparr>"
  have r3: "ledRingTask_iter L E c4 s2 = Some (s3, 15)"
    using mode4_initialized [OF s2(2) s2(1)] s2(3) by (simp add: iter_mode4 c4_def s3_def)
  have s3: "wipeExp s3 = 2" "leds s3 ! 2 = hsv2rgb L (CHSV 10 255 255)"
    using s2 by (simp_all add: s3_def)
  define t2 where "t2 = s1\<lparr>leds := replicate 96 Blue\<rparr>"
  have q2: "ledRingTask_iter L E (init_config\<lparr>currentMode := 1\<rparr>) s1 = Some (t2, 50)"
    using s1(1) by (simp add: iter_mode1 mode1_def fill_solid_all t2_def)
  have t2: "length (leds t2) = 96" "sideWipeInitialized t2" "wipeExp t2 = 1" "leds t2 ! 2 = Blue"
    using s1 by (simp_all add: t2_def)
  define t3 where "t3 = t2\<lparr>leds := (leds t2)[nat (wipeExp t2) := wipeColor t2, nat (47 - wipeExp t2) := wipeColor t2,
                                   nat (48 + wipeExp t2) := wipeColor t2, nat (95 - wipeExp t2) := wipeColor t2],
                   wipeExp := wipeExp t2 + 1\<rparr>"
  have q3: "ledRingTask_iter L E c4 t2 = Some (t3, 15)"
    using mode4_initialized [OF t2(2) t2(1)] t2(3) by (simp add: iter_mode4 c4_def t3_def)
  have t3: "wipeExp t3 = 2" "leds t3 ! 2 = Blue"
    using t2 by (simp_all add: t3_def)
  have "Blue \<noteq> Black" by (simp add: Blue_def Black_def)
  then show "\<exists>s1 s2 s3 t2 t3.
     ledRingTask_iter L E (init_config\<lparr>currentMode := 4\<rparr>)
        (ledRingTask_start init_config init_ring_state) = Some (s1, 65)
   \<and> ledRingTask_iter L E (init_config\<lparr>currentMode := 0\<rparr>) s1 = Some (s2, 10)
   \<and> ledRingTask_iter L E (init_config\<lparr>currentMode := 4\<rparr>) s2 = Some (s3, 15)
   \<and> sideWipeInitialized s2 \<and> wipeExp s2 = 1 \<and> wipeExp s3 = 2
   \<and> leds s3 ! 2 = hsv2rgb L (CHSV 10 255 255)
   \<and> ledRingTask_iter L E (init_config\<lparr>currentMode := 1\<rparr>) s1 = Some (t2, 50)
   \<and> ledRingTask_iter L E (init_config\<lparr>currentMode := 4\<rparr>) t2 = Some (t3, 15)
   \<and> sideWipeInitialized t2 \<and> wipeExp t3 = 2 \<and> leds t3 ! 2 = Blue \<and> Blue \<noteq> Black"
    using r1 r2 r3 s2 s3 q2 q3 t2 t3 unfolding s0_def c4_def by blast
qed

end
